theory Spec2Isabelle
  imports Main "HOL-Library.AList"
begin

section \<open>Text, numbers and variants as the dialog sees them\<close>

text \<open>
  The statistics dialog of \<^verbatim>\<open>ui/qt/tap_parameter_dialog.cpp\<close> works on Qt values: a
  \<^verbatim>\<open>QString\<close> is modelled as a \<^typ>\<open>string\<close> whose elements are the code units that
  \<^verbatim>\<open>QString::length\<close> counts, a \<^verbatim>\<open>QByteArray\<close> as a \<^typ>\<open>string\<close> as well, and the
  conversions between the two (\<^verbatim>\<open>toUtf8\<close>, \<^verbatim>\<open>constData\<close>) as the identity, which is what
  they are on text of the ASCII range without the character U+0000. Lengths and field
  widths are C++ \<^verbatim>\<open>int\<close>s; no arithmetic other than comparison and negation is done on
  them, so they are modelled as \<^typ>\<open>int\<close>.
\<close>

subsection \<open>Decimal text of integers\<close>

definition digit_char :: "nat \<Rightarrow> char" where
  "digit_char d = ''0123456789'' ! d"

function number_nat :: "nat \<Rightarrow> string" where
  "number_nat n =
     (if n < 10 then [digit_char n] else number_nat (n div 10) @ [digit_char (n mod 10)])"
  by pat_completeness auto
termination
  by (relation "measure id") auto

declare number_nat.simps [simp del]

definition number_int :: "int \<Rightarrow> string" where
  "number_int i = (if i < 0 then CHR ''-'' # number_nat (nat (- i)) else number_nat (nat i))"

subsection \<open>QVariant\<close>

text \<open>
  A cell of a row is a \<^verbatim>\<open>QVariant\<close>. The dialog tells four types apart
  (\<^verbatim>\<open>QVariant::String\<close>, \<^verbatim>\<open>Int\<close>, \<^verbatim>\<open>UInt\<close>, \<^verbatim>\<open>Double\<close>); every other type falls
  into the \<^verbatim>\<open>default\<close> branch of \<^verbatim>\<open>itemDataToPlain\<close> and is seen only through
  \<^verbatim>\<open>toString()\<close>, so it carries that text. A double is seen only through the two texts
  Qt renders for it, \<^verbatim>\<open>QString::number(d, 'f', 6)\<close> and \<^verbatim>\<open>QVariant::toString()\<close>; the
  cell carries both, in this order, and no property below depends on what they are. The
  value of an \<^verbatim>\<open>Int\<close> or \<^verbatim>\<open>UInt\<close> cell is only ever printed, so it is an \<^typ>\<open>int\<close> or a
  \<^typ>\<open>nat\<close>.
\<close>

datatype QVariant =
    QVariant_String string
  | QVariant_Int int
  | QVariant_UInt nat
  | QVariant_Double string string
  | QVariant_Other string

fun toString :: "QVariant \<Rightarrow> string" where
  "toString (QVariant_String s) = s"
| "toString (QVariant_Int i) = number_int i"
| "toString (QVariant_UInt n) = number_nat n"
| "toString (QVariant_Double fixed6 text) = text"
| "toString (QVariant_Other text) = text"

subsection \<open>QString::arg\<close>

text \<open>
  \<^verbatim>\<open>QString::arg(a, fieldWidth)\<close> replaces every occurrence of the lowest numbered place
  marker of the receiver (\<^verbatim>\<open>%1\<close> .. \<^verbatim>\<open>%99\<close>, with an optional \<^verbatim>\<open>L\<close> after the percent
  sign) by \<^verbatim>\<open>a\<close>, padded with spaces to \<^verbatim>\<open>|fieldWidth|\<close>: on the left when the width is
  positive (right-aligned text), on the right when it is negative (left-aligned text).
  A receiver without any place marker is returned as it is. The receiver is scanned as
  Qt's \<^verbatim>\<open>findArgEscapes\<close> does: a percent sign, an optional \<^verbatim>\<open>L\<close>, one digit and at most
  one more digit.
\<close>

definition digitValue :: "char \<Rightarrow> nat option" where
  "digitValue c =
     (let n = (of_char c :: nat) in if 48 \<le> n \<and> n \<le> 57 then Some (n - 48) else None)"

datatype piece = Text char | Escape nat string

text \<open>The place marker that starts right after a percent sign: its number and how many
  characters it takes after the percent sign.\<close>

definition escape_after :: "string \<Rightarrow> (nat \<times> nat) option" where
  "escape_after cs =
     (let (l, ds) = (case cs of c # r \<Rightarrow> if c = CHR ''L'' then (1, r) else (0, cs) | [] \<Rightarrow> (0::nat, cs))
      in case ds of
           [] \<Rightarrow> None
         | d1 # r1 \<Rightarrow>
             (case digitValue d1 of
                None \<Rightarrow> None
              | Some v1 \<Rightarrow>
                  (case r1 of
                     [] \<Rightarrow> Some (v1, l + 1)
                   | d2 # r2 \<Rightarrow>
                       (case digitValue d2 of
                          None \<Rightarrow> Some (v1, l + 1)
                        | Some v2 \<Rightarrow> Some (10 * v1 + v2, l + 2)))))"

function pieces :: "string \<Rightarrow> piece list" where
  "pieces [] = []"
| "pieces (c # cs) =
     (if c = CHR ''%'' then
        (case escape_after cs of
           Some (n, len) \<Rightarrow> Escape n (c # take len cs) # pieces (drop len cs)
         | None \<Rightarrow> Text c # pieces cs)
      else Text c # pieces cs)"
  by pat_completeness auto
termination
  by (relation "measure length") auto

fun escapes :: "piece list \<Rightarrow> nat list" where
  "escapes [] = []"
| "escapes (Text c # ps) = escapes ps"
| "escapes (Escape n src # ps) = n # escapes ps"

fun min_escape :: "nat list \<Rightarrow> nat option" where
  "min_escape [] = None"
| "min_escape (n # ns) = (case min_escape ns of None \<Rightarrow> Some n | Some m \<Rightarrow> Some (min n m))"

definition padded :: "string \<Rightarrow> int \<Rightarrow> string" where
  "padded a fieldWidth =
     (let pad_chars = max (nat \<bar>fieldWidth\<bar>) (length a) - length a
      in (if fieldWidth > 0 then replicate pad_chars CHR '' '' else [])
         @ a
         @ (if fieldWidth < 0 then replicate pad_chars CHR '' '' else []))"

fun replace_escape :: "nat \<Rightarrow> string \<Rightarrow> piece \<Rightarrow> string" where
  "replace_escape m a (Text c) = [c]"
| "replace_escape m a (Escape n src) = (if n = m then a else src)"

definition arg :: "string \<Rightarrow> string \<Rightarrow> int \<Rightarrow> string" where
  "arg s a fieldWidth =
     (let ps = pieces s
      in case min_escape (escapes ps) of
           None \<Rightarrow> s
         | Some m \<Rightarrow> concat (map (replace_escape m (padded a fieldWidth)) ps))"

text \<open>
  The overload with several strings, \<^verbatim>\<open>str.arg(a1, a2)\<close>, replaces the place markers with
  the lowest numbers by \<^verbatim>\<open>a1\<close>, \<^verbatim>\<open>a2\<close>, .. in one pass over the receiver, so a place
  marker inside an argument is never replaced. It scans with Qt's \<^verbatim>\<open>getEscape\<close>: all the
  digits after the percent sign (and the optional \<^verbatim>\<open>L\<close>), a number up to 999.
\<close>

definition getEscape :: "string \<Rightarrow> (nat \<times> nat) option" where
  "getEscape cs =
     (let (l, ds) = (case cs of c # r \<Rightarrow> if c = CHR ''L'' then (1, r) else (0, cs) | [] \<Rightarrow> (0::nat, cs));
          digs = takeWhile (\<lambda>c. digitValue c \<noteq> None) ds;
          escape = foldl (\<lambda>e c. case digitValue c of Some v \<Rightarrow> e * 10 + v | None \<Rightarrow> e) 0 digs
      in if digs = [] then None
         else if escape \<le> 999 then Some (escape, l + length digs)
         else None)"

function parseMultiArgFormatString :: "string \<Rightarrow> piece list" where
  "parseMultiArgFormatString [] = []"
| "parseMultiArgFormatString (c # cs) =
     (if c = CHR ''%'' then
        (case getEscape cs of
           Some (n, len) \<Rightarrow> Escape n (c # take len cs) # parseMultiArgFormatString (drop len cs)
         | None \<Rightarrow> Text c # parseMultiArgFormatString cs)
      else Text c # parseMultiArgFormatString cs)"
  by pat_completeness auto
termination
  by (relation "measure length") auto

fun placeholder_arg :: "nat \<Rightarrow> nat list \<Rightarrow> string list \<Rightarrow> string option" where
  "placeholder_arg n (m # ms) (a # as) = (if n = m then Some a else placeholder_arg n ms as)"
| "placeholder_arg n ms as = None"

fun resolve_part :: "nat list \<Rightarrow> string list \<Rightarrow> piece \<Rightarrow> string" where
  "resolve_part ms as (Text c) = [c]"
| "resolve_part ms as (Escape n src) =
     (case placeholder_arg n ms as of Some a \<Rightarrow> a | None \<Rightarrow> src)"

definition multiArg :: "string \<Rightarrow> string list \<Rightarrow> string" where
  "multiArg s as =
     (let ps = parseMultiArgFormatString s;
          argIndexToPlaceholderMap = sort (remdups (escapes ps))
      in concat (map (resolve_part argIndexToPlaceholderMap as) ps))"

subsection \<open>Joining, filling, escaping\<close>

fun join :: "string \<Rightarrow> string list \<Rightarrow> string" where
  "join sep [] = []"
| "join sep [x] = x"
| "join sep (x # y # ys) = x @ sep @ join sep (y # ys)"

definition fill :: "char \<Rightarrow> int \<Rightarrow> string" where
  "fill ch n = replicate (nat n) ch"

text \<open>
  \<^verbatim>\<open>QString::toHtmlEscaped\<close> (and \<^verbatim>\<open>Qt::escape\<close> before Qt 5) goes through the text once and
  replaces the four HTML metacharacters \<^verbatim>\<open><\<close>, \<^verbatim>\<open>>\<close>, \<^verbatim>\<open>&\<close> and the double quote by their
  entities; every other character, the apostrophe among them, is copied.
\<close>

definition html_char :: "char \<Rightarrow> string" where
  \<open>html_char c =
     (if c = CHR ''<'' then ''&lt;''
      else if c = CHR ''>'' then ''&gt;''
      else if c = CHR ''&'' then ''&amp;''
      else if c = CHR 0x22 then ''&quot;''
      else [c])\<close>

definition toHtmlEscaped :: "string \<Rightarrow> string" where
  "toHtmlEscaped s = concat (map html_char s)"

section \<open>The registry of dialog creators\<close>

text \<open>
  \<^verbatim>\<open>static QHash<const QString, tpdCreator> cfg_str_to_creator_\<close> is modelled as an
  association list, since a \<^verbatim>\<open>QHash\<close> may hold several entries for one key
  (\<^verbatim>\<open>insertMulti\<close>); \<^verbatim>\<open>hash[key] = value\<close> overwrites the entry of the key when there is
  one and adds an entry otherwise; \<^verbatim>\<open>contains\<close> and the read \<^verbatim>\<open>hash[key]\<close> look the key up.
  A \<^verbatim>\<open>tpdCreator\<close> is a function pointer taking the parent widget, the configuration
  string, the argument (the filter) and the capture file, and returning a pointer to a
  dialog, modelled as an option (\<^term>\<open>None\<close> is \<^verbatim>\<open>NULL\<close>). The two other effects of
  \<^verbatim>\<open>registerDialog\<close>, the call of \<^verbatim>\<open>register_stat_tap_ui\<close> and the menu action handed to
  \<^verbatim>\<open>wsApp->addStatisticsGroupItem\<close>, are recorded in the order of the calls.
\<close>

type_synonym ('w, 'c, 'd) tpdCreator = "'w \<Rightarrow> string \<Rightarrow> string \<Rightarrow> 'c \<Rightarrow> 'd option"

record ('g, 'cb) stat_tap_ui =
  group :: 'g
  title :: string
  cli_string :: string
  tap_init_cb :: 'cb
  nparams :: nat

record ('g, 'cb, 'w, 'c, 'd) registry =
  cfg_str_to_creator :: "(string \<times> ('w, 'c, 'd) tpdCreator) list"
  stat_tap_uis :: "('g, 'cb) stat_tap_ui list"
  statistics_group_items :: "('g \<times> string \<times> string) list"

definition no_dialogs :: "('g, 'cb, 'w, 'c, 'd) registry" where
  "no_dialogs = \<lparr>cfg_str_to_creator = [], stat_tap_uis = [], statistics_group_items = []\<rparr>"

definition contains :: "(string \<times> 'v) list \<Rightarrow> string \<Rightarrow> bool" where
  "contains h k = (k \<in> set (map fst h))"

definition registerDialog ::
  "string \<Rightarrow> string \<Rightarrow> 'g \<Rightarrow> 'cb \<Rightarrow> ('w, 'c, 'd) tpdCreator \<Rightarrow>
   ('g, 'cb, 'w, 'c, 'd) registry \<Rightarrow> ('g, 'cb, 'w, 'c, 'd) registry" where
  "registerDialog title_arg cfg_abbr group_arg tap_init_cb_arg creator r =
     (let ui_info = \<lparr>group = group_arg, title = title_arg, cli_string = cfg_abbr,
                      tap_init_cb = tap_init_cb_arg, nparams = 0\<rparr>;
          cfg_str = cfg_abbr
      in r\<lparr>stat_tap_uis := stat_tap_uis r @ [ui_info],
           cfg_str_to_creator := AList.update cfg_str creator (cfg_str_to_creator r),
           statistics_group_items := statistics_group_items r @ [(group_arg, title_arg, cfg_str)]\<rparr>)"

definition showTapParameterStatistics ::
  "('g, 'cb, 'w, 'c, 'd) registry \<Rightarrow> 'w \<Rightarrow> 'c \<Rightarrow> string \<Rightarrow> string \<Rightarrow> 'd option" where
  "showTapParameterStatistics r parent cf cfg_str arg_str =
     (if contains (cfg_str_to_creator r) cfg_str then
        (case map_of (cfg_str_to_creator r) cfg_str of
           Some creator \<Rightarrow> creator parent cfg_str arg_str cf
         | None \<Rightarrow> None)
      else None)"

text \<open>A registration as the arguments of one call of \<^verbatim>\<open>registerDialog\<close>, and a start-up
  as the calls in their order.\<close>

record ('g, 'cb, 'w, 'c, 'd) registration =
  reg_title :: string
  reg_cfg_abbr :: string
  reg_group :: 'g
  reg_tap_init_cb :: 'cb
  reg_creator :: "('w, 'c, 'd) tpdCreator"

definition register_one ::
  "('g, 'cb, 'w, 'c, 'd) registry \<Rightarrow> ('g, 'cb, 'w, 'c, 'd) registration \<Rightarrow>
   ('g, 'cb, 'w, 'c, 'd) registry" where
  "register_one r d =
     registerDialog (reg_title d) (reg_cfg_abbr d) (reg_group d) (reg_tap_init_cb d)
       (reg_creator d) r"

definition register_all ::
  "('g, 'cb, 'w, 'c, 'd) registry \<Rightarrow> ('g, 'cb, 'w, 'c, 'd) registration list \<Rightarrow>
   ('g, 'cb, 'w, 'c, 'd) registry" where
  "register_all r ds = foldl register_one r ds"

section \<open>The dialog and its export\<close>

text \<open>
  What \<^verbatim>\<open>getTreeAsString\<close> reads of the dialog: the labels of the header item of
  \<^verbatim>\<open>ui->statsTreeWidget\<close> (as many as \<^verbatim>\<open>columnCount()\<close>), the items that
  \<^verbatim>\<open>QTreeWidgetItemIterator(.., NotHidden)\<close> visits, in its order, the virtual method
  \<^verbatim>\<open>treeItemData\<close>, \<^verbatim>\<open>windowSubtitle()\<close> and \<^verbatim>\<open>cap_file_.fileName()\<close>.
\<close>

datatype st_format_type = ST_FORMAT_PLAIN | ST_FORMAT_CSV | ST_FORMAT_XML | ST_FORMAT_YAML

datatype error = IndexOutOfRange

record 'item TapParameterDialog =
  headerLabels :: "string list"
  visibleItems :: "'item list"
  treeItemData :: "'item \<Rightarrow> QVariant list"
  windowSubtitle :: string
  fileName :: string

text \<open>The method of the base class: \<^verbatim>\<open>return QList<QVariant>();\<close>\<close>

definition treeItemData_base :: "'item \<Rightarrow> QVariant list" where
  "treeItemData_base item = []"

definition columnCount :: "'item TapParameterDialog \<Rightarrow> nat" where
  "columnCount d = length (headerLabels d)"

text \<open>\<^verbatim>\<open>headerItem()->text(col)\<close>: the label, and the empty text for a column the header
  does not have.\<close>

definition headerItem_text :: "'item TapParameterDialog \<Rightarrow> nat \<Rightarrow> string" where
  "headerItem_text d col = (if col < columnCount d then headerLabels d ! col else [])"

definition itemDataToPlain :: "QVariant \<Rightarrow> int \<Rightarrow> string" where
  "itemDataToPlain var width =
     (let align_mul = (case var of QVariant_String s \<Rightarrow> - 1 | _ \<Rightarrow> 1);
          plain_str =
            (case var of
               QVariant_String s \<Rightarrow> toString var
             | QVariant_Int i \<Rightarrow> toString var
             | QVariant_UInt n \<Rightarrow> toString var
             | QVariant_Double fixed6 text \<Rightarrow> fixed6
             | QVariant_Other text \<Rightarrow> [])
      in if int (length plain_str) < width then arg ''%1'' plain_str (width * align_mul)
         else plain_str)"

text \<open>Modelled from the spec: the default value of the parameter \<^verbatim>\<open>width\<close> of
  \<^verbatim>\<open>itemDataToPlain\<close>, which the class declaration in \<^verbatim>\<open>tap_parameter_dialog.h\<close> gives;
  the width pass of the spec takes the length of the cell text itself, which is what the
  width 0 yields.\<close>

definition itemDataToPlain_default_width :: int where
  "itemDataToPlain_default_width = 0"

definition plain_sep :: string where
  "plain_sep = ''  ''"

subsection \<open>The width pass of the plain format\<close>

text \<open>
  The \<^verbatim>\<open>foreach\<close> over the cells of one item, with the column counter \<^verbatim>\<open>col\<close> and the list
  \<^verbatim>\<open>col_widths\<close> it updates. \<^verbatim>\<open>col_widths[col]\<close> on a \<^verbatim>\<open>QList\<close> is defined within the
  list only; outside, the model returns \<^term>\<open>IndexOutOfRange\<close>.
\<close>

fun width_cells ::
  "'item TapParameterDialog \<Rightarrow> QVariant list \<Rightarrow> nat \<Rightarrow> int list \<Rightarrow> error + int list" where
  "width_cells d [] col col_widths = Inr col_widths"
| "width_cells d (var # tid) col col_widths =
     (let col_widths1 =
            (if length col_widths \<le> col
             then col_widths @ [int (length (headerItem_text d col))]
             else col_widths)
      in case var of
           QVariant_String s \<Rightarrow>
             (if col < length col_widths1 then
                width_cells d tid (Suc col)
                  (col_widths1[col :=
                     max (col_widths1 ! col)
                       (int (length (itemDataToPlain var itemDataToPlain_default_width)))])
              else Inl IndexOutOfRange)
         | _ \<Rightarrow> width_cells d tid (Suc col) col_widths1)"

text \<open>The \<^verbatim>\<open>while (*width_it)\<close> loop over the visible items.\<close>

fun width_items ::
  "'item TapParameterDialog \<Rightarrow> 'item list \<Rightarrow> int list \<Rightarrow> error + int list" where
  "width_items d [] col_widths = Inr col_widths"
| "width_items d (item # items) col_widths =
     (case width_cells d (treeItemData d item) 0 col_widths of
        Inl e \<Rightarrow> Inl e
      | Inr col_widths1 \<Rightarrow> width_items d items col_widths1)"

subsection \<open>Title and header\<close>

text \<open>The first \<^verbatim>\<open>switch (format)\<close>: the bytes appended to \<^verbatim>\<open>ba\<close>, the column widths and
  the footer it leaves for the rest of the function.\<close>

definition title_and_header ::
  "'item TapParameterDialog \<Rightarrow> st_format_type \<Rightarrow> error + (string \<times> int list \<times> string)" where
  \<open>title_and_header d format =
     (case format of
        ST_FORMAT_PLAIN \<Rightarrow>
          (case width_items d (visibleItems d) [] of
             Inl e \<Rightarrow> Inl e
           | Inr col_widths \<Rightarrow>
               (let ph_parts =
                      map (headerItem_text d) [0 ..< min (columnCount d) (length col_widths)];
                    plain_header = join plain_sep ph_parts;
                    top_separator = fill CHR ''='' (int (length plain_header)) @ ''\<newline>'';
                    file_header = multiArg ''%1 - %2:\<newline>'' [windowSubtitle d, fileName d];
                    footer = fill CHR ''-'' (int (length plain_header)) @ ''\<newline>''
                in Inr (top_separator @ file_header @ (plain_header @ ''\<newline>'') @ footer,
                        col_widths, footer)))
      | ST_FORMAT_CSV \<Rightarrow>
          (let ch_parts = map (\<lambda>col. arg ''"%1"'' (headerItem_text d col) 0) [0 ..< columnCount d];
               csv_header = join '','' ch_parts @ ''\<newline>''
           in Inr (csv_header, [], []))
      | ST_FORMAT_XML \<Rightarrow>
          (let xml_header =
                 arg ''<table>\<newline><title>%1</title>\<newline>'' (toHtmlEscaped (windowSubtitle d)) 0;
               entries =
                 map (\<lambda>col. arg ''  <entry>%1</entry>\<newline>'' (toHtmlEscaped (headerItem_text d col)) 0)
                   [0 ..< columnCount d]
           in Inr (''<?xml version="1.0" encoding="UTF-8"?>\<newline>'' @ xml_header
                   @ ''<thead>\<newline><row>\<newline>'' @ concat entries
                   @ ''</row>\<newline></thead>\<newline>'' @ ''<tbody>\<newline>'',
                   [], ''</tbody>\<newline></table>\<newline>''))
      | ST_FORMAT_YAML \<Rightarrow>
          (let yaml_header =
                 arg (arg ''Description: "%1"\<newline>File: "%2"\<newline>Items:\<newline>''
                        (windowSubtitle d) 0)
                   (fileName d) 0
           in Inr (''---\<newline>'' @ yaml_header, [], [])))\<close>

subsection \<open>The data lines\<close>

text \<open>Plain: the \<^verbatim>\<open>foreach\<close> with the counter \<^verbatim>\<open>i\<close>, reading \<^verbatim>\<open>col_widths[i]\<close>.\<close>

fun plain_parts ::
  "int list \<Rightarrow> QVariant list \<Rightarrow> nat \<Rightarrow> string list \<Rightarrow> error + string list" where
  "plain_parts col_widths [] i parts = Inr parts"
| "plain_parts col_widths (var # tid) i parts =
     (if i < length col_widths then
        plain_parts col_widths tid (Suc i) (parts @ [itemDataToPlain var (col_widths ! i)])
      else Inl IndexOutOfRange)"

text \<open>CSV and YAML: a string in double quotes, any other value as \<^verbatim>\<open>toString()\<close> gives it.\<close>

definition quoted_entry :: "QVariant \<Rightarrow> string" where
  \<open>quoted_entry var =
     (case var of
        QVariant_String s \<Rightarrow> arg ''"%1"'' (toString var) 0
      | _ \<Rightarrow> toString var)\<close>

text \<open>YAML: the \<^verbatim>\<open>foreach\<close> with the counter \<^verbatim>\<open>col\<close> and the \<^verbatim>\<open>indent\<close>, which is the dash
  for the first cell and a space from then on.\<close>

fun yaml_cells ::
  "'item TapParameterDialog \<Rightarrow> QVariant list \<Rightarrow> nat \<Rightarrow> string \<Rightarrow> string \<Rightarrow> string" where
  "yaml_cells d [] col indent line = line"
| "yaml_cells d (var # tid) col indent line =
     yaml_cells d tid (Suc col) '' ''
       (line @ multiArg (arg ''  %1 %2: %3\<newline>'' indent 0)
                 [headerItem_text d col, quoted_entry var])"

definition item_line ::
  "'item TapParameterDialog \<Rightarrow> st_format_type \<Rightarrow> int list \<Rightarrow> QVariant list \<Rightarrow> error + string"
  where
  \<open>item_line d format col_widths tid =
     (case format of
        ST_FORMAT_PLAIN \<Rightarrow>
          (case plain_parts col_widths tid 0 [] of
             Inl e \<Rightarrow> Inl e
           | Inr parts \<Rightarrow> Inr (join plain_sep parts @ ''\<newline>''))
      | ST_FORMAT_CSV \<Rightarrow> Inr (join '','' (map quoted_entry tid) @ ''\<newline>'')
      | ST_FORMAT_XML \<Rightarrow>
          Inr (''<row>\<newline>''
               @ concat (map (\<lambda>var. arg ''  <entry>%1</entry>\<newline>''
                                       (toHtmlEscaped (toString var)) 0) tid)
               @ ''</row>\<newline>'')
      | ST_FORMAT_YAML \<Rightarrow> Inr (yaml_cells d tid 0 ''-'' []))\<close>

text \<open>The \<^verbatim>\<open>while (*it)\<close> loop: an item without cells is passed over, the line of any other
  item is appended to \<^verbatim>\<open>ba\<close>.\<close>

fun data_items ::
  "'item TapParameterDialog \<Rightarrow> st_format_type \<Rightarrow> int list \<Rightarrow> 'item list \<Rightarrow> string
   \<Rightarrow> error + string" where
  "data_items d format col_widths [] ba = Inr ba"
| "data_items d format col_widths (item # items) ba =
     (let tid = treeItemData d item
      in if length tid < 1 then data_items d format col_widths items ba
         else (case item_line d format col_widths tid of
                 Inl e \<Rightarrow> Inl e
               | Inr line \<Rightarrow> data_items d format col_widths items (ba @ line)))"

definition getTreeAsString :: "'item TapParameterDialog \<Rightarrow> st_format_type \<Rightarrow> error + string" where
  "getTreeAsString d format =
     (case title_and_header d format of
        Inl e \<Rightarrow> Inl e
      | Inr (ba, col_widths, footer) \<Rightarrow>
          (case data_items d format col_widths (visibleItems d) ba of
             Inl e \<Rightarrow> Inl e
           | Inr ba1 \<Rightarrow> Inr (ba1 @ footer)))"

section \<open>Notions used to state and to prove the properties\<close>

subsection \<open>The width pass, column by column\<close>

text \<open>
  The width of a column before the cells of an item are looked at is the width the list
  holds for it, or the length of its header label when the list does not reach it yet;
  a String cell of the item at the column raises it to the length of its text.
\<close>

definition header_width :: "'item TapParameterDialog \<Rightarrow> nat \<Rightarrow> int" where
  "header_width d j = int (length (headerItem_text d j))"

definition base_width :: "'item TapParameterDialog \<Rightarrow> int list \<Rightarrow> nat \<Rightarrow> int" where
  "base_width d ws j = (if j < length ws then ws ! j else header_width d j)"

definition raised :: "QVariant list \<Rightarrow> nat \<Rightarrow> int \<Rightarrow> int" where
  "raised tid j b =
     (if j < length tid then
        (case tid ! j of QVariant_String s \<Rightarrow> max b (int (length s)) | _ \<Rightarrow> b)
      else b)"

text \<open>The lengths of the texts of the String cells at a column, over the visible items, and
  the numbers of cells of the visible items.\<close>

definition cell_string_length :: "QVariant list \<Rightarrow> nat \<Rightarrow> int list" where
  "cell_string_length tid j =
     (if j < length tid then
        (case tid ! j of QVariant_String s \<Rightarrow> [int (length s)] | _ \<Rightarrow> [])
      else [])"

definition string_lengths_at :: "'item TapParameterDialog \<Rightarrow> nat \<Rightarrow> int list" where
  "string_lengths_at d j =
     concat (map (\<lambda>item. cell_string_length (treeItemData d item) j) (visibleItems d))"

definition cell_counts :: "'item TapParameterDialog \<Rightarrow> nat list" where
  "cell_counts d = map (\<lambda>item. length (treeItemData d item)) (visibleItems d)"

subsection \<open>Reading a CSV line back\<close>

text \<open>Splitting a text at every occurrence of a character, and stripping the double quotes
  off both ends of a field.\<close>

fun split_on :: "char \<Rightarrow> string \<Rightarrow> string list" where
  "split_on c [] = [[]]"
| "split_on c (x # xs) =
     (if x = c then [] # split_on c xs
      else (case split_on c xs of y # ys \<Rightarrow> (x # y) # ys | [] \<Rightarrow> [[x]]))"

definition strip_quotes :: "string \<Rightarrow> string" where
  "strip_quotes s = rev (dropWhile (\<lambda>c. c = CHR 0x22) (rev (dropWhile (\<lambda>c. c = CHR 0x22) s)))"

subsection \<open>The numeric cell types\<close>

fun numeric :: "QVariant \<Rightarrow> bool" where
  "numeric (QVariant_Int i) = True"
| "numeric (QVariant_UInt n) = True"
| "numeric (QVariant_Double fixed6 text) = True"
| "numeric v = False"

subsection \<open>The YAML text as the specification words it\<close>

text \<open>
  The specification gives the literal shape of the YAML text: \<^verbatim>\<open>---\<close>, the lines
  \<^verbatim>\<open>Description: "<title>"\<close>, \<^verbatim>\<open>File: "<source>"\<close> and \<^verbatim>\<open>Items:\<close>, and for each visible row
  the first cell as \<^verbatim>\<open>- <label>: <value>\<close> and each later cell as \<^verbatim>\<open>  <label>: <value>\<close>,
  a String value in double quotes and any other value bare, each on its own line.
\<close>

definition spec_yaml_value :: "QVariant \<Rightarrow> string" where
  \<open>spec_yaml_value var = (case var of QVariant_String s \<Rightarrow> ''"'' @ s @ ''"'' | _ \<Rightarrow> toString var)\<close>

definition spec_yaml_row :: "'item TapParameterDialog \<Rightarrow> QVariant list \<Rightarrow> string" where
  "spec_yaml_row d tid =
     concat (map (\<lambda>i. (if i = 0 then ''- '' else ''  '') @ headerItem_text d i @ '': ''
                        @ spec_yaml_value (tid ! i) @ ''\<newline>'')
               [0 ..< length tid])"

definition spec_yaml :: "'item TapParameterDialog \<Rightarrow> string" where
  \<open>spec_yaml d =
     ''---\<newline>''
     @ ''Description: "'' @ windowSubtitle d @ ''"\<newline>''
     @ ''File: "'' @ fileName d @ ''"\<newline>''
     @ ''Items:\<newline>''
     @ concat (map (spec_yaml_row d) (map (treeItemData d) (visibleItems d)))\<close>

subsection \<open>Dialogs and registries to run the functions on\<close>

definition protocol_dialog :: "(QVariant list) TapParameterDialog" where
  "protocol_dialog =
     \<lparr>headerLabels = [''Protocol'', ''Packets''],
      visibleItems = [[QVariant_String ''udp'', QVariant_Int 120],
                      [QVariant_String ''tcp'', QVariant_Int 300]],
      treeItemData = (\<lambda>item. item),
      windowSubtitle = ''Protocol Hierarchy'',
      fileName = ''cap.pcap''\<rparr>"

definition demo_dialog :: "(QVariant list) TapParameterDialog" where
  "demo_dialog =
     \<lparr>headerLabels = [''Name'', ''Count''],
      visibleItems = [[QVariant_String ''alice'', QVariant_Int 3], [],
                      [QVariant_String ''bob'', QVariant_UInt 15]],
      treeItemData = (\<lambda>item. item),
      windowSubtitle = ''Demo'',
      fileName = ''cap.pcap''\<rparr>"

definition narrow_dialog :: "(QVariant list) TapParameterDialog" where
  "narrow_dialog =
     \<lparr>headerLabels = [''Name'', ''Count''],
      visibleItems = [[QVariant_String ''alice'']],
      treeItemData = (\<lambda>item. item),
      windowSubtitle = ''Demo'',
      fileName = ''cap.pcap''\<rparr>"

definition plain_dialog :: "nat TapParameterDialog" where
  "plain_dialog =
     \<lparr>headerLabels = [''Name'', ''Count''],
      visibleItems = [0, 1],
      treeItemData = treeItemData_base,
      windowSubtitle = ''Demo'',
      fileName = ''cap.pcap''\<rparr>"

definition apostrophe_dialog :: "(QVariant list) TapParameterDialog" where
  "apostrophe_dialog =
     \<lparr>headerLabels = [''Name''],
      visibleItems = [[QVariant_String (''it'' @ [CHR 0x27] @ ''s'')]],
      treeItemData = (\<lambda>item. item),
      windowSubtitle = ''Demo'',
      fileName = ''cap.pcap''\<rparr>"

definition echo_creator :: "(unit, unit, string \<times> string) tpdCreator" where
  "echo_creator parent cfg_str arg_str cf = Some (cfg_str, arg_str)"

definition fixed_creator :: "(unit, unit, string \<times> string) tpdCreator" where
  "fixed_creator parent cfg_str arg_str cf = Some (''fixed'', [])"

definition one_dialog :: "(unit, unit, unit, unit, string \<times> string) registry" where
  "one_dialog = registerDialog ''I/O Graph'' ''io,stat'' () () echo_creator no_dialogs"

section \<open>Closed forms of the loops\<close>

subsection \<open>The templates of the dialog\<close>

text \<open>Each template of the source is a fixed text, so its place markers are found by
  running the scanner on it.\<close>

lemmas scan_defs = arg_def escape_after_def digitValue_def multiArg_def getEscape_def

lemma arg_field: "arg ''%1'' a w = padded a w"
  by (simp add: scan_defs)

lemma padded_0: "padded a 0 = a"
  by (simp add: padded_def)

lemma arg_quotes: \<open>arg ''"%1"'' a 0 = ''"'' @ a @ ''"''\<close>
  by (simp add: scan_defs padded_0)

lemma arg_entry: "arg ''  <entry>%1</entry>\<newline>'' a 0 = ''  <entry>'' @ a @ ''</entry>\<newline>''"
  by (simp add: scan_defs padded_0)

lemma arg_table_title:
  "arg ''<table>\<newline><title>%1</title>\<newline>'' a 0 = ''<table>\<newline><title>'' @ a @ ''</title>\<newline>''"
  by (simp add: scan_defs padded_0)

lemma multiArg_file_header:
  "multiArg ''%1 - %2:\<newline>'' [a, b] = a @ '' - '' @ b @ '':\<newline>''"
  by (simp add: scan_defs)

lemma multiArg_yaml_first:
  "multiArg (arg ''  %1 %2: %3\<newline>'' ''-'' 0) [a, b] = ''  - '' @ a @ '': '' @ b @ ''\<newline>''"
  by (simp add: scan_defs padded_0)

lemma multiArg_yaml_next:
  "multiArg (arg ''  %1 %2: %3\<newline>'' '' '' 0) [a, b] = ''    '' @ a @ '': '' @ b @ ''\<newline>''"
  by (simp add: scan_defs padded_0)

subsection \<open>The width pass\<close>

lemma itemDataToPlain_default: "itemDataToPlain (QVariant_String s) itemDataToPlain_default_width = s"
  by (simp add: itemDataToPlain_def itemDataToPlain_default_width_def)

lemma width_cells_closed:
  "col \<le> length ws \<Longrightarrow>
   \<exists>ws'. width_cells d tid col ws = Inr ws'
     \<and> length ws' = max (length ws) (col + length tid)
     \<and> (\<forall>j < length ws'. ws' ! j = (if col \<le> j then raised tid (j - col) (base_width d ws j) else base_width d ws j))"
proof (induction tid arbitrary: col ws)
  case Nil
  then show ?case by (simp add: raised_def base_width_def)
next
  case (Cons var tid)
  define ws1 where "ws1 = (if length ws \<le> col then ws @ [header_width d col] else ws)"
  define ws2 where "ws2 = (case var of QVariant_String s \<Rightarrow> ws1[col := max (ws1 ! col) (int (length s))] | _ \<Rightarrow> ws1)"
  have l1: "length ws1 = max (length ws) (Suc col)" using Cons.prems by (simp add: ws1_def)
  have l2: "length ws2 = length ws1" by (simp add: ws2_def split: QVariant.splits)
  have step: "width_cells d (var # tid) col ws = width_cells d tid (Suc col) ws2"
    using l1 Cons.prems by (auto simp add: ws1_def ws2_def header_width_def itemDataToPlain_default Let_def split: QVariant.splits)
  have "Suc col \<le> length ws2" using l1 l2 by simp
  from Cons.IH [OF this] obtain ws' where
    r: "width_cells d tid (Suc col) ws2 = Inr ws'"
    and len: "length ws' = max (length ws2) (Suc col + length tid)"
    and nth: "\<forall>j < length ws'. ws' ! j = (if Suc col \<le> j then raised tid (j - Suc col) (base_width d ws2 j) else base_width d ws2 j)"
    by blast
  have b_other: "base_width d ws2 j = base_width d ws j" if "j \<noteq> col" for j
    using that Cons.prems
    by (auto simp add: base_width_def ws2_def ws1_def nth_append split: QVariant.splits)
  have b_col: "base_width d ws2 col = raised (var # tid) 0 (base_width d ws col)"
    using Cons.prems
    by (auto simp add: base_width_def ws2_def ws1_def nth_append raised_def split: QVariant.splits)
  have "ws' ! j = (if col \<le> j then raised (var # tid) (j - col) (base_width d ws j) else base_width d ws j)"
    if "j < length ws'" for j
  proof (cases "j = col")
    case True
    with nth that b_col show ?thesis by simp
  next
    case False
    show ?thesis
    proof (cases "col \<le> j")
      case True
      with False obtain k where k: "j - col = Suc k" "j - Suc col = k"
        by (metis Suc_diff_Suc le_neq_implies_less diff_Suc_eq_diff_pred diff_Suc_1)
      with True False nth that b_other [OF False] show ?thesis
        by (simp add: raised_def)
    next
      case False
      with nth that b_other [of j] show ?thesis by simp
    qed
  qed
  with r len l1 l2 step show ?case by auto
qed

lemma width_items_closed:
  "\<exists>ws'. width_items d items ws = Inr ws'
     \<and> length ws' = foldl (\<lambda>n item. max n (length (treeItemData d item))) (length ws) items
     \<and> (\<forall>j < length ws'. ws' ! j =
           foldl (\<lambda>b item. raised (treeItemData d item) j b) (base_width d ws j) items)"
proof (induction items arbitrary: ws)
  case Nil
  then show ?case by (simp add: base_width_def)
next
  case (Cons item items)
  from width_cells_closed [of 0 ws d "treeItemData d item"] obtain ws1 where
    c: "width_cells d (treeItemData d item) 0 ws = Inr ws1"
    and l1: "length ws1 = max (length ws) (length (treeItemData d item))"
    and n1: "\<forall>j < length ws1. ws1 ! j = raised (treeItemData d item) j (base_width d ws j)"
    by auto
  have b1: "base_width d ws1 j = raised (treeItemData d item) j (base_width d ws j)" for j
  proof (cases "j < length ws1")
    case True
    with n1 show ?thesis by (simp add: base_width_def)
  next
    case False
    with l1 have "\<not> j < length ws" "\<not> j < length (treeItemData d item)" by simp_all
    with False show ?thesis by (simp add: base_width_def raised_def)
  qed
  from Cons.IH [of ws1] obtain ws' where
    r: "width_items d items ws1 = Inr ws'"
    and len: "length ws' = foldl (\<lambda>n item. max n (length (treeItemData d item))) (length ws1) items"
    and nth: "\<forall>j < length ws'. ws' ! j =
           foldl (\<lambda>b item. raised (treeItemData d item) j b) (base_width d ws1 j) items"
    by blast
  from c r len nth l1 b1 show ?case by simp
qed

lemma raised_fold: "raised tid j b = fold max (cell_string_length tid j) b"
  by (simp add: raised_def cell_string_length_def max.commute split: QVariant.splits)

lemma foldl_raised:
  "foldl (\<lambda>b item. raised (f item) j b) b items =
   fold max (concat (map (\<lambda>item. cell_string_length (f item) j) items)) b"
  by (induction items arbitrary: b) (simp_all add: raised_fold)

lemma foldl_max_length:
  "foldl (\<lambda>n item. max n (length (f item))) n items = fold max (map (\<lambda>item. length (f item)) items) n"
  by (induction items arbitrary: n) (simp_all add: max.commute)

lemma col_widths_closed:
  "\<exists>ws. width_items d (visibleItems d) [] = Inr ws
     \<and> length ws = Max (set (0 # cell_counts d))
     \<and> (\<forall>j < length ws. ws ! j = Max (set (header_width d j # string_lengths_at d j)))"
proof -
  from width_items_closed [of d "visibleItems d" "[]"] obtain ws where
    r: "width_items d (visibleItems d) [] = Inr ws"
    and len: "length ws = foldl (\<lambda>n item. max n (length (treeItemData d item))) 0 (visibleItems d)"
    and nth: "\<forall>j < length ws. ws ! j =
           foldl (\<lambda>b item. raised (treeItemData d item) j b) (header_width d j) (visibleItems d)"
    by (auto simp add: base_width_def)
  have "length ws = Max (set (0 # cell_counts d))"
    using len by (simp only: foldl_max_length Max.set_eq_fold cell_counts_def)
  moreover have "\<forall>j < length ws. ws ! j = Max (set (header_width d j # string_lengths_at d j))"
    using nth by (simp only: foldl_raised Max.set_eq_fold string_lengths_at_def)
  ultimately show ?thesis using r by blast
qed

subsection \<open>The data loop\<close>

lemma plain_parts_closed:
  "i + length tid \<le> length ws \<Longrightarrow>
   plain_parts ws tid i parts =
     Inr (parts @ map (\<lambda>(var, w). itemDataToPlain var w) (zip tid (drop i ws)))"
proof (induction tid arbitrary: i parts)
  case Nil
  then show ?case by simp
next
  case (Cons var tid)
  then have "i < length ws" by simp
  then have "drop i ws = ws ! i # drop (Suc i) ws"
    by (simp add: Cons_nth_drop_Suc)
  with Cons show ?case by simp
qed

lemma data_items_closed:
  "(\<And>item. item \<in> set items \<Longrightarrow> treeItemData d item \<noteq> [] \<Longrightarrow>
      item_line d format ws (treeItemData d item) = Inr (f (treeItemData d item))) \<Longrightarrow>
   data_items d format ws items ba =
     Inr (ba @ concat (map f (filter (\<lambda>tid. tid \<noteq> []) (map (treeItemData d) items))))"
proof (induction items arbitrary: ba)
  case Nil
  then show ?case by simp
next
  case (Cons item items)
  show ?case
  proof (cases "treeItemData d item = []")
    case True
    with Cons show ?thesis by simp
  next
    case False
    then have "\<not> length (treeItemData d item) < 1" by (cases "treeItemData d item") simp_all
    with False Cons show ?thesis by (simp add: Let_def)
  qed
qed

subsection \<open>The plain format\<close>

lemma map_nth_upt_min: "map ((!) xs) [0 ..< min (length xs) n] = take n xs"
  by (rule nth_equalityI) (simp_all add: min.commute)

lemma ph_parts_take:
  "map (headerItem_text d) [0 ..< min (columnCount d) n] = take n (headerLabels d)"
proof -
  have "map (headerItem_text d) [0 ..< min (columnCount d) n]
        = map ((!) (headerLabels d)) [0 ..< min (length (headerLabels d)) n]"
    by (simp add: headerItem_text_def columnCount_def)
  then show ?thesis by (simp only: map_nth_upt_min)
qed

lemma header_texts: "map (headerItem_text d) [0 ..< columnCount d] = headerLabels d"
  using ph_parts_take [of d "columnCount d"] by (simp add: columnCount_def)

text \<open>\<^verbatim>\<open>QStringList::join\<close> written out: every text but the first comes after the separator.\<close>

lemma join_Cons: "join sep (x # xs) = x @ concat (map (\<lambda>y. sep @ y) xs)"
  by (induction xs arbitrary: x) simp_all

lemma join_as_concat:
  "join sep xs = concat (map (\<lambda>i. (if i = 0 then [] else sep) @ xs ! i) [0 ..< length xs])"
proof (cases xs)
  case Nil
  then show ?thesis by simp
next
  case (Cons x rest)
  have u: "[0 ..< length (x # rest)] = 0 # map Suc [0 ..< length rest]"
    by (simp add: upt_conv_Cons map_Suc_upt del: upt_Suc)
  have "map (\<lambda>j. sep @ rest ! j) [0 ..< length rest] = map (\<lambda>y. sep @ y) (map ((!) rest) [0 ..< length rest])"
    by simp
  also have "\<dots> = map (\<lambda>y. sep @ y) rest" by (simp only: map_nth)
  finally have m: "map (\<lambda>j. sep @ rest ! j) [0 ..< length rest] = map (\<lambda>y. sep @ y) rest" .
  show ?thesis
    by (simp only: Cons u join_Cons) (simp add: comp_def m del: upt_Suc)
qed

lemma zip_as_nth:
  "length xs \<le> length ys \<Longrightarrow>
   map (\<lambda>(x, y). f x y) (zip xs ys) = map (\<lambda>i. f (xs ! i) (ys ! i)) [0 ..< length xs]"
  by (rule nth_equalityI) simp_all

lemma plain_line:
  "length tid \<le> length ws \<Longrightarrow>
   item_line d ST_FORMAT_PLAIN ws tid =
     Inr (join ''  '' (map (\<lambda>i. itemDataToPlain (tid ! i) (ws ! i)) [0 ..< length tid]) @ ''\<newline>'')"
  using plain_parts_closed [of 0 tid ws "[]"]
  by (simp add: item_line_def plain_sep_def zip_as_nth)

lemma plain_output:
  assumes w: "width_items d (visibleItems d) [] = Inr ws"
    and l: "\<And>item. item \<in> set (visibleItems d) \<Longrightarrow> length (treeItemData d item) \<le> length ws"
  shows "getTreeAsString d ST_FORMAT_PLAIN =
     Inr (replicate (length (join ''  '' (take (length ws) (headerLabels d)))) CHR ''='' @ ''\<newline>''
          @ windowSubtitle d @ '' - '' @ fileName d @ '':\<newline>''
          @ join ''  '' (take (length ws) (headerLabels d)) @ ''\<newline>''
          @ replicate (length (join ''  '' (take (length ws) (headerLabels d)))) CHR ''-'' @ ''\<newline>''
          @ concat (map (\<lambda>tid. join ''  '' (map (\<lambda>i. itemDataToPlain (tid ! i) (ws ! i)) [0 ..< length tid])
                                @ ''\<newline>'')
                      (filter (\<lambda>tid. tid \<noteq> []) (map (treeItemData d) (visibleItems d))))
          @ replicate (length (join ''  '' (take (length ws) (headerLabels d)))) CHR ''-'' @ ''\<newline>'')"
proof -
  have h: "title_and_header d ST_FORMAT_PLAIN =
     Inr (replicate (length (join ''  '' (take (length ws) (headerLabels d)))) CHR ''='' @ ''\<newline>''
          @ windowSubtitle d @ '' - '' @ fileName d @ '':\<newline>''
          @ join ''  '' (take (length ws) (headerLabels d)) @ ''\<newline>''
          @ replicate (length (join ''  '' (take (length ws) (headerLabels d)))) CHR ''-'' @ ''\<newline>'',
          ws,
          replicate (length (join ''  '' (take (length ws) (headerLabels d)))) CHR ''-'' @ ''\<newline>'')"
    by (simp add: title_and_header_def w ph_parts_take plain_sep_def fill_def multiArg_file_header Let_def)
  have "data_items d ST_FORMAT_PLAIN ws (visibleItems d) ba =
     Inr (ba @ concat (map (\<lambda>tid. join ''  '' (map (\<lambda>i. itemDataToPlain (tid ! i) (ws ! i)) [0 ..< length tid])
                                @ ''\<newline>'')
                      (filter (\<lambda>tid. tid \<noteq> []) (map (treeItemData d) (visibleItems d)))))" for ba
    by (rule data_items_closed) (simp add: plain_line l)
  with h show ?thesis by (simp add: getTreeAsString_def)
qed

lemma cell_count_le_widths:
  assumes "length ws = Max (set (0 # cell_counts d))" and "item \<in> set (visibleItems d)"
  shows "length (treeItemData d item) \<le> length ws"
proof -
  have "length (treeItemData d item) \<in> set (0 # cell_counts d)"
    using assms(2) by (simp add: cell_counts_def)
  then have "length (treeItemData d item) \<le> Max (set (0 # cell_counts d))"
    by (intro Max_ge) simp_all
  with assms(1) show ?thesis by simp
qed

subsection \<open>The CSV and XML formats\<close>

lemma quoted_entry_closed:
  \<open>quoted_entry var = (case var of QVariant_String s \<Rightarrow> ''"'' @ s @ ''"'' | _ \<Rightarrow> toString var)\<close>
  by (simp add: quoted_entry_def arg_quotes split: QVariant.splits)

lemma csv_output:
  \<open>getTreeAsString d ST_FORMAT_CSV =
     Inr (join '','' (map (\<lambda>label. ''"'' @ label @ ''"'') (headerLabels d)) @ ''\<newline>''
          @ concat (map (\<lambda>tid. join '','' (map quoted_entry tid) @ ''\<newline>'')
                      (filter (\<lambda>tid. tid \<noteq> []) (map (treeItemData d) (visibleItems d)))))\<close>
proof -
  have "map (\<lambda>col. arg [CHR 0x22, CHR ''%'', CHR ''1'', CHR 0x22] (headerItem_text d col) 0) [0 ..< columnCount d]
        = map (\<lambda>label. [CHR 0x22] @ label @ [CHR 0x22]) (map (headerItem_text d) [0 ..< columnCount d])"
    by (simp add: arg_quotes)
  then have h: "title_and_header d ST_FORMAT_CSV =
     Inr (join '','' (map (\<lambda>label. [CHR 0x22] @ label @ [CHR 0x22]) (headerLabels d)) @ ''\<newline>'', [], [])"
    by (simp add: title_and_header_def header_texts)
  have "data_items d ST_FORMAT_CSV [] (visibleItems d) ba =
     Inr (ba @ concat (map (\<lambda>tid. join '','' (map quoted_entry tid) @ ''\<newline>'')
                      (filter (\<lambda>tid. tid \<noteq> []) (map (treeItemData d) (visibleItems d)))))" for ba
    by (rule data_items_closed) (simp add: item_line_def)
  with h show ?thesis by (simp add: getTreeAsString_def)
qed

lemma xml_output:
  \<open>getTreeAsString d ST_FORMAT_XML =
     Inr (''<?xml version="1.0" encoding="UTF-8"?>\<newline>''
          @ ''<table>\<newline><title>'' @ toHtmlEscaped (windowSubtitle d) @ ''</title>\<newline>''
          @ ''<thead>\<newline><row>\<newline>''
          @ concat (map (\<lambda>label. ''  <entry>'' @ toHtmlEscaped label @ ''</entry>\<newline>'') (headerLabels d))
          @ ''</row>\<newline></thead>\<newline><tbody>\<newline>''
          @ concat (map (\<lambda>tid. ''<row>\<newline>''
                              @ concat (map (\<lambda>var. ''  <entry>'' @ toHtmlEscaped (toString var) @ ''</entry>\<newline>'') tid)
                              @ ''</row>\<newline>'')
                      (filter (\<lambda>tid. tid \<noteq> []) (map (treeItemData d) (visibleItems d))))
          @ ''</tbody>\<newline></table>\<newline>'')\<close>
proof -
  have "map (\<lambda>col. arg ''  <entry>%1</entry>\<newline>'' (toHtmlEscaped (headerItem_text d col)) 0) [0 ..< columnCount d]
        = map (\<lambda>label. ''  <entry>'' @ toHtmlEscaped label @ ''</entry>\<newline>'') (map (headerItem_text d) [0 ..< columnCount d])"
    by (simp add: arg_entry)
  then have h: \<open>title_and_header d ST_FORMAT_XML =
     Inr (''<?xml version="1.0" encoding="UTF-8"?>\<newline>''
          @ ''<table>\<newline><title>'' @ toHtmlEscaped (windowSubtitle d) @ ''</title>\<newline>''
          @ ''<thead>\<newline><row>\<newline>''
          @ concat (map (\<lambda>label. ''  <entry>'' @ toHtmlEscaped label @ ''</entry>\<newline>'') (headerLabels d))
          @ ''</row>\<newline></thead>\<newline><tbody>\<newline>'', [], ''</tbody>\<newline></table>\<newline>'')\<close>
    by (simp add: title_and_header_def header_texts arg_table_title)
  have "data_items d ST_FORMAT_XML [] (visibleItems d) ba =
     Inr (ba @ concat (map (\<lambda>tid. ''<row>\<newline>''
                              @ concat (map (\<lambda>var. ''  <entry>'' @ toHtmlEscaped (toString var) @ ''</entry>\<newline>'') tid)
                              @ ''</row>\<newline>'')
                      (filter (\<lambda>tid. tid \<noteq> []) (map (treeItemData d) (visibleItems d)))))" for ba
    by (rule data_items_closed) (simp add: item_line_def arg_entry)
  with h show ?thesis by (simp add: getTreeAsString_def)
qed

subsection \<open>A text put into a template and scanned again\<close>

text \<open>
  The YAML header is built by two calls of \<^verbatim>\<open>arg\<close> in a row, so the second call scans the
  window subtitle the first one has put in. The place markers of a text are the same
  within the template as on its own, as the character after the text is a double quote.
\<close>

lemma escape_after_length: "escape_after cs = Some (n, len) \<Longrightarrow> len \<le> length cs"
  by (auto simp add: escape_after_def split: list.splits option.splits if_splits)

lemma escape_after_append:
  "digitValue q = None \<Longrightarrow> q \<noteq> CHR ''L'' \<Longrightarrow> escape_after (cs @ q # qs) = escape_after cs"
  by (auto simp add: escape_after_def split: list.splits option.splits if_splits)

lemma pieces_no_percent: "CHR ''%'' \<notin> set p \<Longrightarrow> pieces (p @ xs) = map Text p @ pieces xs"
  by (induction p) auto

lemma pieces_append:
  "digitValue q = None \<Longrightarrow> q \<noteq> CHR ''L'' \<Longrightarrow> pieces (t @ q # qs) = pieces t @ pieces (q # qs)"
proof (induction t rule: pieces.induct)
  case 1
  then show ?case by simp
next
  case (2 c cs)
  show ?case
  proof (cases "c = CHR ''%''")
    case False
    with 2 show ?thesis by simp
  next
    case True
    note e = escape_after_append [OF "2.prems", of cs qs]
    show ?thesis
    proof (cases "escape_after cs")
      case None
      with True e 2 show ?thesis by simp
    next
      case (Some a)
      obtain n len where a: "a = (n, len)" by (cases a)
      with Some have "len \<le> length cs" by (simp add: escape_after_length)
      with True e Some a "2.IH"(2) [OF True Some [unfolded a] refl "2.prems"] show ?thesis by simp
    qed
  qed
qed

lemma escapes_append: "escapes (xs @ ys) = escapes xs @ escapes ys"
  by (induction xs rule: escapes.induct) simp_all

lemma escapes_Text: "escapes (map Text p) = []"
  by (induction p) simp_all

lemma min_escape_above:
  "\<forall>n \<in> set ns. m < n \<Longrightarrow> min_escape (ns @ [m]) = Some m"
  by (induction ns) (simp_all add: min_def)

lemma pieces_unreplaced:
  "m \<notin> set (escapes (pieces t)) \<Longrightarrow> concat (map (replace_escape m a) (pieces t)) = t"
proof (induction t rule: pieces.induct)
  case 1
  then show ?case by simp
next
  case (2 c cs)
  show ?case
  proof (cases "c = CHR ''%''")
    case False
    with 2 show ?thesis by simp
  next
    case True
    show ?thesis
    proof (cases "escape_after cs")
      case None
      with True 2 show ?thesis by simp
    next
      case (Some a)
      obtain n len where a: "a = (n, len)" by (cases a)
      with True Some "2.prems" "2.IH"(2) [OF True Some [unfolded a] refl] show ?thesis by simp
    qed
  qed
qed

lemma concat_map_Text: "concat (map (replace_escape m a) (map Text p)) = p"
  by (induction p) simp_all

lemma yaml_header_closed:
  assumes "\<forall>n \<in> set (escapes (pieces t)). 2 < n"
  shows \<open>arg (arg ''Description: "%1"\<newline>File: "%2"\<newline>Items:\<newline>'' t 0) f 0
         = ''Description: "'' @ t @ ''"\<newline>File: "'' @ f @ ''"\<newline>Items:\<newline>''\<close>
proof -
  have first: \<open>arg ''Description: "%1"\<newline>File: "%2"\<newline>Items:\<newline>'' t 0
           = ''Description: "'' @ (t @ ''"\<newline>File: "%2"\<newline>Items:\<newline>'')\<close>
    by (simp add: scan_defs padded_0)
  have q: \<open>pieces (''"\<newline>File: "%2"\<newline>Items:\<newline>'')
           = map Text ''"\<newline>File: "'' @ [Escape 2 ''%2''] @ map Text ''"\<newline>Items:\<newline>''\<close>
    by (simp add: scan_defs)
  have ps: \<open>pieces (''Description: "'' @ (t @ ''"\<newline>File: "%2"\<newline>Items:\<newline>''))
           = map Text ''Description: "'' @ pieces t
             @ (map Text ''"\<newline>File: "'' @ [Escape 2 ''%2''] @ map Text ''"\<newline>Items:\<newline>'')\<close>
    apply (subst pieces_no_percent)
     apply simp
    apply (subst pieces_append)
      apply (simp add: digitValue_def)
     apply simp
    apply (simp only: q)
    done
  have es: \<open>escapes (pieces (''Description: "'' @ (t @ ''"\<newline>File: "%2"\<newline>Items:\<newline>'')))
           = escapes (pieces t) @ [2]\<close>
    by (simp only: ps escapes_append escapes_Text) simp
  have two: "2 \<notin> set (escapes (pieces t))" using assms by auto
  show ?thesis
    apply (simp only: first)
    apply (simp only: arg_def Let_def es min_escape_above [OF assms] option.case)
    apply (simp only: ps map_append concat_append concat_map_Text pieces_unreplaced [OF two])
    apply (simp add: padded_0)
    done
qed

subsection \<open>The YAML format\<close>

lemma yaml_cells_next:
  "yaml_cells d tid col '' '' line =
     line @ concat (map (\<lambda>i. ''    '' @ headerItem_text d (col + i) @ '': '' @ quoted_entry (tid ! i) @ ''\<newline>'')
                      [0 ..< length tid])"
proof (induction tid arbitrary: col line)
  case Nil
  then show ?case by simp
next
  case (Cons var tid)
  have "[0 ..< length (var # tid)] = 0 # map Suc [0 ..< length tid]"
    by (simp add: upt_conv_Cons map_Suc_upt del: upt_Suc)
  then show ?case
    by (simp add: Cons.IH multiArg_yaml_next comp_def del: upt_Suc)
qed

lemma yaml_line:
  "yaml_cells d tid 0 ''-'' [] =
     concat (map (\<lambda>i. (if i = 0 then ''  - '' else ''    '') @ headerItem_text d i @ '': ''
                        @ quoted_entry (tid ! i) @ ''\<newline>'')
               [0 ..< length tid])"
proof (cases tid)
  case Nil
  then show ?thesis by simp
next
  case (Cons var rest)
  have "[0 ..< length (var # rest)] = 0 # map Suc [0 ..< length rest]"
    by (simp add: upt_conv_Cons map_Suc_upt del: upt_Suc)
  with Cons show ?thesis
    by (simp add: yaml_cells_next multiArg_yaml_first comp_def del: upt_Suc)
qed

lemma yaml_output:
  assumes "\<forall>n \<in> set (escapes (pieces (windowSubtitle d))). 2 < n"
  shows \<open>getTreeAsString d ST_FORMAT_YAML =
     Inr (''---\<newline>''
          @ ''Description: "'' @ windowSubtitle d @ ''"\<newline>''
          @ ''File: "'' @ fileName d @ ''"\<newline>''
          @ ''Items:\<newline>''
          @ concat (map (\<lambda>tid. concat (map (\<lambda>i. (if i = 0 then ''  - '' else ''    '')
                                                  @ headerItem_text d i @ '': ''
                                                  @ quoted_entry (tid ! i) @ ''\<newline>'')
                                         [0 ..< length tid]))
                      (filter (\<lambda>tid. tid \<noteq> []) (map (treeItemData d) (visibleItems d)))))\<close>
proof -
  have h: \<open>title_and_header d ST_FORMAT_YAML =
     Inr (''---\<newline>''
          @ ''Description: "'' @ windowSubtitle d @ ''"\<newline>''
          @ ''File: "'' @ fileName d @ ''"\<newline>''
          @ ''Items:\<newline>'', [], [])\<close>
    by (simp add: title_and_header_def yaml_header_closed [OF assms])
  have "data_items d ST_FORMAT_YAML [] (visibleItems d) ba =
     Inr (ba @ concat (map (\<lambda>tid. concat (map (\<lambda>i. (if i = 0 then ''  - '' else ''    '')
                                                  @ headerItem_text d i @ '': ''
                                                  @ quoted_entry (tid ! i) @ ''\<newline>'')
                                         [0 ..< length tid]))
                      (filter (\<lambda>tid. tid \<noteq> []) (map (treeItemData d) (visibleItems d)))))" for ba
    by (rule data_items_closed) (simp add: item_line_def yaml_line)
  with h show ?thesis by (simp add: getTreeAsString_def)
qed

subsection \<open>Items without cells\<close>

lemma headerItem_text_items [simp]:
  "headerItem_text (d\<lparr>visibleItems := x\<rparr>) = headerItem_text d"
  by (rule ext) (simp add: headerItem_text_def columnCount_def)

lemma width_cells_items [simp]:
  "width_cells (d\<lparr>visibleItems := x\<rparr>) tid col ws = width_cells d tid col ws"
  by (induction tid arbitrary: col ws) (simp_all add: Let_def split: QVariant.splits)

lemma width_items_items [simp]:
  "width_items (d\<lparr>visibleItems := x\<rparr>) items ws = width_items d items ws"
  by (induction items arbitrary: ws) (simp_all split: sum.splits)

lemma width_items_filter:
  "width_items d (filter (\<lambda>item. treeItemData d item \<noteq> []) items) ws = width_items d items ws"
  by (induction items arbitrary: ws) (simp_all split: sum.splits)

lemma yaml_cells_items [simp]:
  "yaml_cells (d\<lparr>visibleItems := x\<rparr>) tid col indent line = yaml_cells d tid col indent line"
  by (induction tid arbitrary: col indent line) simp_all

lemma item_line_items [simp]:
  "item_line (d\<lparr>visibleItems := x\<rparr>) format ws tid = item_line d format ws tid"
  by (cases format) (simp_all add: item_line_def)

lemma data_items_items [simp]:
  "data_items (d\<lparr>visibleItems := x\<rparr>) format ws items ba = data_items d format ws items ba"
  by (induction items arbitrary: ba) (simp_all add: Let_def split: sum.splits)

lemma data_items_filter:
  "data_items d format ws (filter (\<lambda>item. treeItemData d item \<noteq> []) items) ba
   = data_items d format ws items ba"
  by (induction items arbitrary: ba) (simp_all add: Let_def split: sum.splits)

lemma title_and_header_filter:
  "title_and_header (d\<lparr>visibleItems := filter (\<lambda>item. treeItemData d item \<noteq> []) (visibleItems d)\<rparr>) format
   = title_and_header d format"
  by (cases format)
     (simp_all add: title_and_header_def width_items_filter columnCount_def Let_def
        split: sum.splits)

lemma getTreeAsString_filter:
  "getTreeAsString (d\<lparr>visibleItems := filter (\<lambda>item. treeItemData d item \<noteq> []) (visibleItems d)\<rparr>) format
   = getTreeAsString d format"
  by (simp add: getTreeAsString_def title_and_header_filter data_items_filter
        split: sum.splits prod.splits)

subsection \<open>Alignment\<close>

lemma left_aligned:
  "itemDataToPlain (QVariant_String s) w = s @ replicate (nat w - length s) CHR '' ''"
  by (auto simp add: itemDataToPlain_def arg_field padded_def max_def Let_def)

lemma right_aligned_int:
  "itemDataToPlain (QVariant_Int i) w
   = replicate (nat w - length (number_int i)) CHR '' '' @ number_int i"
  by (auto simp add: itemDataToPlain_def arg_field padded_def max_def Let_def)

lemma right_aligned_uint:
  "itemDataToPlain (QVariant_UInt n) w
   = replicate (nat w - length (number_nat n)) CHR '' '' @ number_nat n"
  by (auto simp add: itemDataToPlain_def arg_field padded_def max_def Let_def)

lemma right_aligned_double:
  "itemDataToPlain (QVariant_Double fixed6 text) w
   = replicate (nat w - length fixed6) CHR '' '' @ fixed6"
  by (auto simp add: itemDataToPlain_def arg_field padded_def max_def Let_def)

subsection \<open>Splitting and stripping\<close>

lemma split_on_free: "c \<notin> set x \<Longrightarrow> split_on c x = [x]"
  by (induction x) auto

lemma split_on_append: "c \<notin> set x \<Longrightarrow> split_on c (x @ c # rest) = x # split_on c rest"
  by (induction x) auto

lemma split_on_join:
  "xs \<noteq> [] \<Longrightarrow> \<forall>x \<in> set xs. c \<notin> set x \<Longrightarrow> split_on c (join [c] xs) = xs"
  by (induction "[c]" xs rule: join.induct) (simp_all add: split_on_free split_on_append)

lemma dropWhile_none: "\<forall>x \<in> set s. \<not> P x \<Longrightarrow> dropWhile P s = s"
  by (cases s) simp_all

lemma strip_quotes_quoted:
  "CHR 0x22 \<notin> set s \<Longrightarrow> strip_quotes (CHR 0x22 # s @ [CHR 0x22]) = s"
proof -
  assume h: "CHR 0x22 \<notin> set s"
  then have a: "dropWhile (\<lambda>c. c = CHR 0x22) (s @ [CHR 0x22]) = (if s = [] then [] else s @ [CHR 0x22])"
    by (cases s) auto
  from h have b: "dropWhile (\<lambda>c. c = CHR 0x22) (rev s) = rev s"
    by (intro dropWhile_none) auto
  show ?thesis using a b by (simp add: strip_quotes_def)
qed

lemma strip_quotes_bare: "CHR 0x22 \<notin> set s \<Longrightarrow> strip_quotes s = s"
proof -
  assume h: "CHR 0x22 \<notin> set s"
  then have a: "dropWhile (\<lambda>c. c = CHR 0x22) s = s" by (intro dropWhile_none) auto
  from h have b: "dropWhile (\<lambda>c. c = CHR 0x22) (rev s) = rev s" by (intro dropWhile_none) auto
  show ?thesis using a b by (simp add: strip_quotes_def)
qed

lemma strip_quoted_entry:
  "CHR 0x22 \<notin> set (toString var) \<Longrightarrow> strip_quotes (quoted_entry var) = toString var"
  by (cases var) (simp_all add: quoted_entry_closed strip_quotes_quoted strip_quotes_bare)

lemma comma_quoted_entry:
  "CHR '','' \<notin> set (toString var) \<Longrightarrow> CHR '','' \<notin> set (quoted_entry var)"
  by (cases var) (simp_all add: quoted_entry_closed)

lemma csv_round_trip:
  assumes "tid \<noteq> []"
    and "\<forall>var \<in> set tid. CHR '','' \<notin> set (toString var) \<and> CHR 0x22 \<notin> set (toString var)"
  shows "map strip_quotes (split_on CHR '','' (join '','' (map quoted_entry tid))) = map toString tid"
proof -
  have "split_on CHR '','' (join '','' (map quoted_entry tid)) = map quoted_entry tid"
    using assms by (intro split_on_join) (auto simp add: comma_quoted_entry)
  then show ?thesis using assms by (simp add: strip_quoted_entry)
qed

subsection \<open>Escaping\<close>

lemma toHtmlEscaped_append: "toHtmlEscaped (xs @ ys) = toHtmlEscaped xs @ toHtmlEscaped ys"
  by (simp add: toHtmlEscaped_def)

lemma toHtmlEscaped_no_meta:
  "CHR ''<'' \<notin> set (toHtmlEscaped s) \<and> CHR ''>'' \<notin> set (toHtmlEscaped s) \<and> CHR 0x22 \<notin> set (toHtmlEscaped s)"
  by (induction s) (auto simp add: toHtmlEscaped_def html_char_def)

subsection \<open>The registry\<close>

lemma creators_registerDialog:
  "cfg_str_to_creator (registerDialog t k g cb c r) = AList.update k c (cfg_str_to_creator r)"
  by (simp add: registerDialog_def)

lemma register_all_snoc: "register_all r (ds @ [x]) = register_one (register_all r ds) x"
  by (simp add: register_all_def)

lemma distinct_register_all:
  "distinct (map fst (cfg_str_to_creator r)) \<Longrightarrow>
   distinct (map fst (cfg_str_to_creator (register_all r ds)))"
  by (induction ds rule: rev_induct)
     (simp_all add: register_all_snoc register_one_def creators_registerDialog distinct_update,
      simp add: register_all_def)

lemma showTap_map_of:
  "showTapParameterStatistics r parent cf k a =
     (case map_of (cfg_str_to_creator r) k of Some c \<Rightarrow> c parent k a cf | None \<Rightarrow> None)"
proof (cases "map_of (cfg_str_to_creator r) k")
  case None
  then show ?thesis by (simp add: showTapParameterStatistics_def split: option.splits)
next
  case (Some c)
  then have "k \<in> fst ` set (cfg_str_to_creator r)"
    by (metis map_of_eq_None_iff option.distinct(1))
  with Some show ?thesis by (simp add: showTapParameterStatistics_def contains_def)
qed

lemma map_of_register_all:
  "map_of (cfg_str_to_creator (register_all r ds)) k =
     (case find (\<lambda>x. reg_cfg_abbr x = k) (rev ds) of
        Some x \<Rightarrow> Some (reg_creator x)
      | None \<Rightarrow> map_of (cfg_str_to_creator r) k)"
proof (induction ds rule: rev_induct)
  case Nil
  then show ?case by (simp add: register_all_def)
next
  case (snoc x ds)
  then show ?case
    by (simp add: register_all_snoc register_one_def creators_registerDialog update_conv')
qed

section \<open>The properties\<close>

text \<open>
  C1, as the code has it. In the plain format the width pass succeeds and leaves one width
  for every column at which some visible item has a cell: the list is as long as the
  greatest number of cells of a visible item. A width starts as the length of the header
  label of its column (the empty text for a column the header does not have), and every
  String cell at the column raises it to the length of its text when that is greater: the
  width of column \<open>i\<close> is the greatest of the length of header label \<open>i\<close> and the lengths of
  the texts of the String cells at position \<open>i\<close>. Cells of the types Int, UInt and Double
  change no width, so a column whose cells are all numeric keeps the length of its header
  label, whatever the digits.
\<close>

theorem plain_column_widths:
  "\<exists>col_widths. width_items d (visibleItems d) [] = Inr col_widths
     \<and> length col_widths = Max (set (0 # cell_counts d))
     \<and> (\<forall>i < length col_widths.
          col_widths ! i = Max (set (int (length (headerItem_text d i)) # string_lengths_at d i))
          \<and> ((\<forall>item \<in> set (visibleItems d).
                 i < length (treeItemData d item) \<longrightarrow> numeric (treeItemData d item ! i))
               \<longrightarrow> col_widths ! i = int (length (headerItem_text d i))))"
proof -
  from col_widths_closed [of d] obtain ws where
    r: "width_items d (visibleItems d) [] = Inr ws"
    and len: "length ws = Max (set (0 # cell_counts d))"
    and nth: "\<forall>j < length ws. ws ! j = Max (set (header_width d j # string_lengths_at d j))"
    by blast
  have num: "string_lengths_at d i = []"
    if "\<forall>item \<in> set (visibleItems d).
          i < length (treeItemData d item) \<longrightarrow> numeric (treeItemData d item ! i)" for i
  proof -
    have "cell_string_length (treeItemData d item) i = []" if "item \<in> set (visibleItems d)" for item
    proof (cases "i < length (treeItemData d item)")
      case True
      with that \<open>\<forall>item \<in> set (visibleItems d). _\<close> have "numeric (treeItemData d item ! i)" by blast
      then show ?thesis
        by (cases "treeItemData d item ! i") (simp_all add: cell_string_length_def)
    next
      case False
      then show ?thesis by (simp add: cell_string_length_def)
    qed
    then show ?thesis by (simp add: string_lengths_at_def)
  qed
  have "\<forall>i < length ws.
          ws ! i = Max (set (int (length (headerItem_text d i)) # string_lengths_at d i))
          \<and> ((\<forall>item \<in> set (visibleItems d).
                 i < length (treeItemData d item) \<longrightarrow> numeric (treeItemData d item ! i))
               \<longrightarrow> ws ! i = int (length (headerItem_text d i)))"
  proof (intro allI impI conjI)
    fix i assume i: "i < length ws"
    with nth show m: "ws ! i = Max (set (int (length (headerItem_text d i)) # string_lengths_at d i))"
      by (simp add: header_width_def)
    assume "\<forall>item \<in> set (visibleItems d).
                 i < length (treeItemData d item) \<longrightarrow> numeric (treeItemData d item ! i)"
    from num [OF this] m show "ws ! i = int (length (headerItem_text d i))" by simp
  qed
  with r len show ?thesis by blast
qed

theorem plain_column_widths_witness:
  "width_items protocol_dialog (visibleItems protocol_dialog) [] = Inr [8, 7]
   \<and> (1::nat) < length [8, 7 :: int]
   \<and> numeric (QVariant_Int 120) \<and> numeric (QVariant_Int 300)
   \<and> [8, 7 :: int] ! 1 = int (length ''Packets'')"
proof -
  have e: "width_items protocol_dialog (visibleItems protocol_dialog) [] = Inr [8, 7]"
    by code_simp
  from plain_column_widths [of protocol_dialog] obtain ws where
    w: "width_items protocol_dialog (visibleItems protocol_dialog) [] = Inr ws"
    and a: "\<forall>i < length ws.
          ws ! i = Max (set (int (length (headerItem_text protocol_dialog i))
                             # string_lengths_at protocol_dialog i))
          \<and> ((\<forall>item \<in> set (visibleItems protocol_dialog).
                 i < length (treeItemData protocol_dialog item)
                 \<longrightarrow> numeric (treeItemData protocol_dialog item ! i))
               \<longrightarrow> ws ! i = int (length (headerItem_text protocol_dialog i)))"
    by blast
  from w e have ws: "ws = [8, 7]" by simp
  have n: "\<forall>item \<in> set (visibleItems protocol_dialog).
             1 < length (treeItemData protocol_dialog item)
             \<longrightarrow> numeric (treeItemData protocol_dialog item ! 1)"
    by (simp add: protocol_dialog_def)
  have "(1::nat) < length ws" by (simp add: ws)
  with a n have "ws ! 1 = int (length (headerItem_text protocol_dialog 1))" by blast
  then have "[8, 7 :: int] ! 1 = int (length ''Packets'')"
    by (simp add: ws protocol_dialog_def headerItem_text_def columnCount_def)
  with e show ?thesis by simp
qed

text \<open>A header column at which no visible item has a cell gets no width, and its label is
  not in the header line.\<close>

theorem header_column_without_width:
  "columnCount narrow_dialog = 2
   \<and> width_items narrow_dialog (visibleItems narrow_dialog) [] = Inr [5]
   \<and> getTreeAsString narrow_dialog ST_FORMAT_PLAIN =
       Inr (''====\<newline>''
            @ ''Demo - cap.pcap:\<newline>''
            @ ''Name\<newline>''
            @ ''----\<newline>''
            @ ''alice\<newline>''
            @ ''----\<newline>'')"
  by code_simp

text \<open>
  C2. The plain export always returns a text. After the title and header lines it holds,
  for every visible item with at least one cell and in the order of the items, one line:
  each cell rendered into the width of its column, every rendered cell but the first
  preceded by exactly two spaces, then a newline; this is what joining the rendered cells
  with the separator of two spaces gives, as joining puts the separator before every text
  but the first and nothing else. A String cell is left-aligned (padded with spaces on
  its right up to the width), an Int, UInt or Double cell is right-aligned (padded on its
  left); a text as long as the width or longer is not padded. After the last line the
  separator of dashes, as long as the header line, is appended once, and it ends the text.
\<close>

theorem plain_rows_and_footer:
  "\<exists>col_widths header_line.
     width_items d (visibleItems d) [] = Inr col_widths
     \<and> header_line =
         concat (map (\<lambda>i. (if i = 0 then [] else ''  '') @ take (length col_widths) (headerLabels d) ! i)
                   [0 ..< length (take (length col_widths) (headerLabels d))])
     \<and> getTreeAsString d ST_FORMAT_PLAIN =
         Inr (replicate (length header_line) CHR ''='' @ ''\<newline>''
              @ windowSubtitle d @ '' - '' @ fileName d @ '':\<newline>''
              @ header_line @ ''\<newline>''
              @ replicate (length header_line) CHR ''-'' @ ''\<newline>''
              @ concat (map (\<lambda>tid. concat (map (\<lambda>i. (if i = 0 then [] else ''  '')
                                                      @ itemDataToPlain (tid ! i) (col_widths ! i))
                                             [0 ..< length tid])
                                    @ ''\<newline>'')
                          (filter (\<lambda>tid. tid \<noteq> []) (map (treeItemData d) (visibleItems d))))
              @ replicate (length header_line) CHR ''-'' @ ''\<newline>'')
     \<and> join sep xs = concat (map (\<lambda>i. (if i = 0 then [] else sep) @ xs ! i) [0 ..< length xs])
     \<and> itemDataToPlain (QVariant_String s) w = s @ replicate (nat w - length s) CHR '' ''
     \<and> itemDataToPlain (QVariant_Int n) w
         = replicate (nat w - length (number_int n)) CHR '' '' @ number_int n
     \<and> itemDataToPlain (QVariant_UInt m) w
         = replicate (nat w - length (number_nat m)) CHR '' '' @ number_nat m
     \<and> itemDataToPlain (QVariant_Double fixed6 text) w
         = replicate (nat w - length fixed6) CHR '' '' @ fixed6"
proof -
  from col_widths_closed [of d] obtain ws where
    r: "width_items d (visibleItems d) [] = Inr ws"
    and len: "length ws = Max (set (0 # cell_counts d))"
    by blast
  have cells: "join ''  '' (map (\<lambda>i. itemDataToPlain (tid ! i) (ws ! i)) [0 ..< length tid])
      = concat (map (\<lambda>i. (if i = 0 then [] else ''  '') @ itemDataToPlain (tid ! i) (ws ! i))
                  [0 ..< length tid])" for tid
  proof -
    have e: "map (\<lambda>x. (if x = 0 then [] else ''  '')
                    @ map (\<lambda>i. itemDataToPlain (tid ! i) (ws ! i)) [0 ..< length tid] ! x)
            [0 ..< length tid]
          = map (\<lambda>i. (if i = 0 then [] else ''  '') @ itemDataToPlain (tid ! i) (ws ! i))
              [0 ..< length tid]"
      by (rule map_cong) simp_all
    show ?thesis by (simp only: join_as_concat length_map length_upt diff_zero e)
  qed
  note out = plain_output [OF r cell_count_le_widths [OF len], unfolded cells]
  have hl: "join ''  '' (take (length ws) (headerLabels d)) =
         concat (map (\<lambda>i. (if i = 0 then [] else ''  '') @ take (length ws) (headerLabels d) ! i)
                   [0 ..< length (take (length ws) (headerLabels d))])"
    by (rule join_as_concat)
  from out r show ?thesis
    unfolding hl
    by (simp only: left_aligned right_aligned_int right_aligned_uint right_aligned_double
          join_as_concat [of sep xs]) blast
qed

text \<open>
  C9. In the plain format every read \<open>col_widths[i]\<close> of the second pass is within the
  list: the width pass succeeds and leaves a list as long as the greatest number of cells
  of a visible item, so for every visible item every cell position is below the length of
  the width list; the parts of every item are built and the export returns a text, never
  the index error.
\<close>

theorem plain_width_index_in_range:
  "\<exists>col_widths.
     width_items d (visibleItems d) [] = Inr col_widths
     \<and> length col_widths = Max (set (0 # cell_counts d))
     \<and> (\<forall>item \<in> set (visibleItems d). \<forall>i < length (treeItemData d item). i < length col_widths)
     \<and> (\<forall>item \<in> set (visibleItems d).
          \<exists>parts. plain_parts col_widths (treeItemData d item) 0 [] = Inr parts)
     \<and> (\<exists>ba. getTreeAsString d ST_FORMAT_PLAIN = Inr ba)"
proof -
  from col_widths_closed [of d] obtain ws where
    r: "width_items d (visibleItems d) [] = Inr ws"
    and len: "length ws = Max (set (0 # cell_counts d))"
    by blast
  note le = cell_count_le_widths [OF len]
  have a: "\<forall>item \<in> set (visibleItems d). \<forall>i < length (treeItemData d item). i < length ws"
    using le by fastforce
  have b: "\<forall>item \<in> set (visibleItems d). \<exists>parts. plain_parts ws (treeItemData d item) 0 [] = Inr parts"
    using le by (simp add: plain_parts_closed)
  have c: "\<exists>ba. getTreeAsString d ST_FORMAT_PLAIN = Inr ba"
    using plain_output [OF r le] by blast
  from r len a b c show ?thesis by blast
qed

theorem plain_width_index_in_range_witness:
  "width_items demo_dialog (visibleItems demo_dialog) [] = Inr [5, 5]
   \<and> [QVariant_String ''bob'', QVariant_UInt 15] \<in> set (visibleItems demo_dialog)
   \<and> (1::nat) < length (treeItemData demo_dialog [QVariant_String ''bob'', QVariant_UInt 15])
   \<and> (1::nat) < length [5, 5 :: int]"
proof -
  have e: "width_items demo_dialog (visibleItems demo_dialog) [] = Inr [5, 5]"
    by code_simp
  have m: "[QVariant_String ''bob'', QVariant_UInt 15] \<in> set (visibleItems demo_dialog)"
    by (simp add: demo_dialog_def)
  have l: "(1::nat) < length (treeItemData demo_dialog [QVariant_String ''bob'', QVariant_UInt 15])"
    by (simp add: demo_dialog_def)
  from plain_width_index_in_range [of demo_dialog] obtain ws where
    w: "width_items demo_dialog (visibleItems demo_dialog) [] = Inr ws"
    and a: "\<forall>item \<in> set (visibleItems demo_dialog).
              \<forall>i < length (treeItemData demo_dialog item). i < length ws"
    by blast
  from a m l have "1 < length ws" by blast
  moreover from w e have "ws = [5, 5]" by simp
  ultimately show ?thesis using e m l by simp
qed

text \<open>
  C10. The header line of the plain format is made of the leading header labels only, as
  many as the width list is long, that is as many as the greatest number of cells of a
  visible item (and no more than the header has), every label but the first after two
  spaces; the two separator lines are as long as this line. When no visible item has any cell, as for a dialog that keeps the
  \<open>treeItemData\<close> of the base class, the width list is empty, the header line is empty
  and the separators of \<open>=\<close> and of \<open>-\<close> have length zero: the text is an empty line, the
  line of title and file, and three empty lines.
\<close>

theorem plain_header_line:
  "\<exists>col_widths.
     width_items d (visibleItems d) [] = Inr col_widths
     \<and> length col_widths = Max (set (0 # cell_counts d))
     \<and> (\<exists>data. getTreeAsString d ST_FORMAT_PLAIN =
           Inr (replicate (length (join ''  '' (take (length col_widths) (headerLabels d)))) CHR ''='' @ ''\<newline>''
                @ windowSubtitle d @ '' - '' @ fileName d @ '':\<newline>''
                @ join ''  '' (take (length col_widths) (headerLabels d)) @ ''\<newline>''
                @ replicate (length (join ''  '' (take (length col_widths) (headerLabels d)))) CHR ''-'' @ ''\<newline>''
                @ data))
     \<and> ((\<forall>item \<in> set (visibleItems d). treeItemData d item = []) \<longrightarrow>
          col_widths = []
          \<and> getTreeAsString d ST_FORMAT_PLAIN =
              Inr (''\<newline>'' @ windowSubtitle d @ '' - '' @ fileName d @ '':\<newline>''
                   @ ''\<newline>'' @ ''\<newline>'' @ ''\<newline>''))
     \<and> (treeItemData d = treeItemData_base \<longrightarrow>
          getTreeAsString d ST_FORMAT_PLAIN =
              Inr (''\<newline>'' @ windowSubtitle d @ '' - '' @ fileName d @ '':\<newline>''
                   @ ''\<newline>'' @ ''\<newline>'' @ ''\<newline>''))
     \<and> join ''  '' (take (length col_widths) (headerLabels d)) =
         concat (map (\<lambda>i. (if i = 0 then [] else ''  '') @ headerLabels d ! i)
                   [0 ..< min (length col_widths) (length (headerLabels d))])"
proof -
  from col_widths_closed [of d] obtain ws where
    r: "width_items d (visibleItems d) [] = Inr ws"
    and len: "length ws = Max (set (0 # cell_counts d))"
    by blast
  note out = plain_output [OF r cell_count_le_widths [OF len]]
  have empty: "ws = [] \<and> getTreeAsString d ST_FORMAT_PLAIN =
              Inr (''\<newline>'' @ windowSubtitle d @ '' - '' @ fileName d @ '':\<newline>''
                   @ ''\<newline>'' @ ''\<newline>'' @ ''\<newline>'')"
    if h: "\<forall>item \<in> set (visibleItems d). treeItemData d item = []"
  proof -
    from h have eq: "insert 0 (set (cell_counts d)) = {0}" by (auto simp add: cell_counts_def)
    have "Max (set (0 # cell_counts d)) = Max (insert 0 (set (cell_counts d)))" by simp
    also have "\<dots> = Max {0}" by (simp only: eq)
    finally have "Max (set (0 # cell_counts d)) = 0" by simp
    with len have ws: "ws = []" by simp
    from h have "filter (\<lambda>tid. tid \<noteq> []) (map (treeItemData d) (visibleItems d)) = []"
      by (simp add: filter_empty_conv)
    with out ws show ?thesis by simp
  qed
  moreover have "\<forall>item \<in> set (visibleItems d). treeItemData d item = []"
    if "treeItemData d = treeItemData_base"
    using that by (simp add: treeItemData_base_def)
  moreover have "join ''  '' (take (length ws) (headerLabels d)) =
         concat (map (\<lambda>i. (if i = 0 then [] else ''  '') @ headerLabels d ! i)
                   [0 ..< min (length ws) (length (headerLabels d))])"
  proof -
    have "map (\<lambda>i. (if i = 0 then [] else ''  '') @ take (length ws) (headerLabels d) ! i)
            [0 ..< min (length ws) (length (headerLabels d))]
          = map (\<lambda>i. (if i = 0 then [] else ''  '') @ headerLabels d ! i)
              [0 ..< min (length ws) (length (headerLabels d))]"
      by (rule map_cong) simp_all
    then show ?thesis
      by (simp only: join_as_concat length_take min.commute)
  qed
  ultimately show ?thesis using r len out by blast
qed

theorem plain_header_line_witness:
  "treeItemData plain_dialog 0 = [] \<and> treeItemData plain_dialog 1 = []
   \<and> width_items plain_dialog (visibleItems plain_dialog) [] = Inr []
   \<and> treeItemData plain_dialog = treeItemData_base
   \<and> getTreeAsString plain_dialog ST_FORMAT_PLAIN
       = Inr (''\<newline>'' @ ''Demo - cap.pcap:\<newline>'' @ ''\<newline>'' @ ''\<newline>'' @ ''\<newline>'')"
proof -
  have b: "treeItemData plain_dialog = treeItemData_base" by (simp add: plain_dialog_def)
  have c: "treeItemData plain_dialog 0 = [] \<and> treeItemData plain_dialog 1 = []"
    by (simp add: plain_dialog_def treeItemData_base_def)
  then have a: "\<forall>item \<in> set (visibleItems plain_dialog). treeItemData plain_dialog item = []"
    by (simp add: plain_dialog_def)
  from plain_header_line [of plain_dialog] obtain ws where
    w: "width_items plain_dialog (visibleItems plain_dialog) [] = Inr ws"
    and e: "(\<forall>item \<in> set (visibleItems plain_dialog). treeItemData plain_dialog item = []) \<longrightarrow>
          ws = []
          \<and> getTreeAsString plain_dialog ST_FORMAT_PLAIN =
              Inr (''\<newline>'' @ windowSubtitle plain_dialog @ '' - '' @ fileName plain_dialog @ '':\<newline>''
                   @ ''\<newline>'' @ ''\<newline>'' @ ''\<newline>'')"
    and f: "treeItemData plain_dialog = treeItemData_base \<longrightarrow>
          getTreeAsString plain_dialog ST_FORMAT_PLAIN =
              Inr (''\<newline>'' @ windowSubtitle plain_dialog @ '' - '' @ fileName plain_dialog @ '':\<newline>''
                   @ ''\<newline>'' @ ''\<newline>'' @ ''\<newline>'')"
    by blast
  from e a have "ws = []" by blast
  with w have 1: "width_items plain_dialog (visibleItems plain_dialog) [] = Inr []" by simp
  from f b have "getTreeAsString plain_dialog ST_FORMAT_PLAIN =
              Inr (''\<newline>'' @ windowSubtitle plain_dialog @ '' - '' @ fileName plain_dialog @ '':\<newline>''
                   @ ''\<newline>'' @ ''\<newline>'' @ ''\<newline>'')"
    by blast
  then have 2: "getTreeAsString plain_dialog ST_FORMAT_PLAIN
       = Inr (''\<newline>'' @ ''Demo - cap.pcap:\<newline>'' @ ''\<newline>'' @ ''\<newline>'' @ ''\<newline>'')"
    by (simp add: plain_dialog_def)
  from b c 1 2 show ?thesis by blast
qed

text \<open>
  C3. The CSV export always returns a text: the header labels, each in double quotes,
  joined by commas and ended by a newline; then one line for every visible item with at
  least one cell, holding the cells joined by commas and ended by a newline, a String cell
  in double quotes and a cell of any other type as the bare text of \<open>toString()\<close>. The
  text of a cell is copied as it is, a comma or a double quote in it included. For an
  item with at least one cell whose texts hold no comma and no double quote, splitting
  its line (without the newline) at the commas and stripping the double quotes off each
  field gives back the texts of the cells.
\<close>

theorem csv_format:
  \<open>getTreeAsString d ST_FORMAT_CSV =
     Inr (join '','' (map (\<lambda>label. ''"'' @ label @ ''"'') (headerLabels d)) @ ''\<newline>''
          @ concat (map (\<lambda>tid. join '','' (map (\<lambda>var. case var of
                                                          QVariant_String s \<Rightarrow> ''"'' @ s @ ''"''
                                                        | _ \<Rightarrow> toString var) tid)
                                @ ''\<newline>'')
                      (filter (\<lambda>tid. tid \<noteq> []) (map (treeItemData d) (visibleItems d)))))
   \<and> (tid \<noteq> [] \<and> (\<forall>var \<in> set tid. CHR '','' \<notin> set (toString var) \<and> CHR 0x22 \<notin> set (toString var))
        \<longrightarrow> map strip_quotes
              (split_on CHR '',''
                 (join '','' (map (\<lambda>var. case var of
                                            QVariant_String s \<Rightarrow> ''"'' @ s @ ''"''
                                          | _ \<Rightarrow> toString var) tid)))
            = map toString tid)\<close>
proof -
  have q: \<open>(\<lambda>var. case var of QVariant_String s \<Rightarrow> ''"'' @ s @ ''"'' | _ \<Rightarrow> toString var) = quoted_entry\<close>
    by (rule ext) (simp add: quoted_entry_closed)
  show ?thesis
    by (simp only: q) (simp add: csv_output csv_round_trip)
qed

theorem csv_format_witness:
  \<open>[QVariant_String ''udp'', QVariant_Int 120] \<noteq> []
   \<and> CHR '','' \<notin> set (toString (QVariant_String ''udp''))
   \<and> CHR 0x22 \<notin> set (toString (QVariant_String ''udp''))
   \<and> CHR '','' \<notin> set (toString (QVariant_Int 120))
   \<and> CHR 0x22 \<notin> set (toString (QVariant_Int 120))
   \<and> map strip_quotes (split_on CHR '','' ''"udp",120'') = [''udp'', ''120'']\<close>
proof -
  have t: "number_int 120 = ''120''" by code_simp
  have h: "[QVariant_String ''udp'', QVariant_Int 120] \<noteq> []
           \<and> (\<forall>var \<in> set [QVariant_String ''udp'', QVariant_Int 120].
                 CHR '','' \<notin> set (toString var) \<and> CHR 0x22 \<notin> set (toString var))"
    by (simp add: t)
  from csv_format [of _ "[QVariant_String ''udp'', QVariant_Int 120]"] h
  have \<open>map strip_quotes
              (split_on CHR '',''
                 (join '','' (map (\<lambda>var. case var of
                                            QVariant_String s \<Rightarrow> ''"'' @ s @ ''"''
                                          | _ \<Rightarrow> toString var) [QVariant_String ''udp'', QVariant_Int 120])))
            = map toString [QVariant_String ''udp'', QVariant_Int 120]\<close>
    by blast
  then have \<open>map strip_quotes (split_on CHR '','' ''"udp",120'') = [''udp'', ''120'']\<close>
    by (simp add: t)
  with h show ?thesis by simp
qed

text \<open>A comma and a double quote inside a String cell reach the CSV line as they are.\<close>

lemma csv_no_escaping:
  \<open>item_line d ST_FORMAT_CSV [] [QVariant_String ''a,"b'', QVariant_Int 7] = Inr ''"a,"b",7\<newline>''\<close>
proof -
  have "number_int 7 = ''7''" by code_simp
  then show ?thesis by (simp add: item_line_def quoted_entry_closed)
qed

text \<open>
  C4, as the code has it. The XML export always returns a text: the XML declaration, the
  \<open>table\<close> and \<open>title\<close> elements with the escaped window subtitle, a \<open>thead\<close> row with one
  \<open>entry\<close> for every header label, escaped, and a \<open>tbody\<close> with one \<open>row\<close> for every
  visible item with at least one cell, holding one \<open>entry\<close> for every cell with the
  escaped text of the cell, whatever its type. Escaping goes through the text character
  by character and replaces \<open>&\<close>, \<open><\<close>, \<open>>\<close> and the double quote by \<open>&amp;\<close>, \<open>&lt;\<close>,
  \<open>&gt;\<close> and \<open>&quot;\<close>; no \<open><\<close>, \<open>>\<close> or double quote is left in an escaped text. Every
  other character is copied, and so is the apostrophe.
\<close>

theorem xml_format:
  \<open>getTreeAsString d ST_FORMAT_XML =
     Inr (''<?xml version="1.0" encoding="UTF-8"?>\<newline>''
          @ ''<table>\<newline><title>'' @ toHtmlEscaped (windowSubtitle d) @ ''</title>\<newline>''
          @ ''<thead>\<newline><row>\<newline>''
          @ concat (map (\<lambda>label. ''  <entry>'' @ toHtmlEscaped label @ ''</entry>\<newline>'') (headerLabels d))
          @ ''</row>\<newline></thead>\<newline><tbody>\<newline>''
          @ concat (map (\<lambda>tid. ''<row>\<newline>''
                              @ concat (map (\<lambda>var. ''  <entry>'' @ toHtmlEscaped (toString var) @ ''</entry>\<newline>'') tid)
                              @ ''</row>\<newline>'')
                      (filter (\<lambda>tid. tid \<noteq> []) (map (treeItemData d) (visibleItems d))))
          @ ''</tbody>\<newline></table>\<newline>'')
   \<and> toHtmlEscaped (xs @ ys) = toHtmlEscaped xs @ toHtmlEscaped ys
   \<and> toHtmlEscaped ''&'' = ''&amp;''
   \<and> toHtmlEscaped ''<'' = ''&lt;''
   \<and> toHtmlEscaped ''>'' = ''&gt;''
   \<and> toHtmlEscaped ''"'' = ''&quot;''
   \<and> CHR ''<'' \<notin> set (toHtmlEscaped s) \<and> CHR ''>'' \<notin> set (toHtmlEscaped s)
   \<and> CHR 0x22 \<notin> set (toHtmlEscaped s)
   \<and> (c \<noteq> CHR ''&'' \<and> c \<noteq> CHR ''<'' \<and> c \<noteq> CHR ''>'' \<and> c \<noteq> CHR 0x22 \<longrightarrow> toHtmlEscaped [c] = [c])\<close>
proof -
  have \<open>toHtmlEscaped ''&'' = ''&amp;''\<close> \<open>toHtmlEscaped ''<'' = ''&lt;''\<close>
    \<open>toHtmlEscaped ''>'' = ''&gt;''\<close> \<open>toHtmlEscaped ''"'' = ''&quot;''\<close>
    by (simp_all add: toHtmlEscaped_def html_char_def)
  moreover have "c \<noteq> CHR ''&'' \<and> c \<noteq> CHR ''<'' \<and> c \<noteq> CHR ''>'' \<and> c \<noteq> CHR 0x22 \<longrightarrow> toHtmlEscaped [c] = [c]"
    by (simp add: toHtmlEscaped_def html_char_def)
  ultimately show ?thesis
    using xml_output [of d] toHtmlEscaped_append [of xs ys] toHtmlEscaped_no_meta [of s]
    by (intro conjI) blast+
qed

theorem xml_format_witness:
  "CHR 0x27 \<noteq> CHR ''&'' \<and> CHR 0x27 \<noteq> CHR ''<'' \<and> CHR 0x27 \<noteq> CHR ''>'' \<and> CHR 0x27 \<noteq> CHR 0x22
   \<and> toHtmlEscaped [CHR 0x27] = [CHR 0x27]
   \<and> toHtmlEscaped ''a&b<c'' = ''a&amp;b&lt;c''"
proof -
  have h: "CHR 0x27 \<noteq> CHR ''&'' \<and> CHR 0x27 \<noteq> CHR ''<'' \<and> CHR 0x27 \<noteq> CHR ''>'' \<and> CHR 0x27 \<noteq> CHR 0x22"
    by simp
  from xml_format [of _ _ _ _ "CHR 0x27"] h have "toHtmlEscaped [CHR 0x27] = [CHR 0x27]"
    by blast
  moreover have "toHtmlEscaped ''a&b<c'' = ''a&amp;b&lt;c''"
    by (simp add: toHtmlEscaped_def html_char_def)
  ultimately show ?thesis using h by simp
qed

text \<open>An apostrophe in a cell reaches the \<^verbatim>\<open>entry\<close> element as it is.\<close>

theorem xml_apostrophe_kept:
  \<open>getTreeAsString apostrophe_dialog ST_FORMAT_XML =
     Inr (''<?xml version="1.0" encoding="UTF-8"?>\<newline>''
          @ ''<table>\<newline><title>Demo</title>\<newline>''
          @ ''<thead>\<newline><row>\<newline>  <entry>Name</entry>\<newline></row>\<newline></thead>\<newline>''
          @ ''<tbody>\<newline><row>\<newline>  <entry>it'' @ [CHR 0x27] @ ''s</entry>\<newline></row>\<newline>''
          @ ''</tbody>\<newline></table>\<newline>'')
   \<and> toHtmlEscaped (''it'' @ [CHR 0x27] @ ''s'') = ''it'' @ [CHR 0x27] @ ''s''\<close>
  by code_simp

text \<open>
  C5, as the code has it. When the window subtitle holds no place marker with a number up
  to 2 (a percent sign, an optional \<open>L\<close>, one or two digits), the YAML export returns the
  line \<open>---\<close>, one line \<open>Description: "<subtitle>"\<close>, one line \<open>File: "<file name>"\<close>, the
  line \<open>Items:\<close> and then, for every visible item with at least one cell and for every cell
  of it, one line: two spaces, then \<open>- \<close> for the first cell of the item and two more
  spaces for any other cell, then the header label of the column, a colon, a space and the
  value, a String in double quotes and any other value bare.
\<close>

theorem yaml_format:
  assumes "\<forall>n \<in> set (escapes (pieces (windowSubtitle d))). 2 < n"
  shows \<open>getTreeAsString d ST_FORMAT_YAML =
     Inr (''---\<newline>''
          @ ''Description: "'' @ windowSubtitle d @ ''"\<newline>''
          @ ''File: "'' @ fileName d @ ''"\<newline>''
          @ ''Items:\<newline>''
          @ concat (map (\<lambda>tid. concat (map (\<lambda>i. (if i = 0 then ''  - '' else ''    '')
                                                  @ headerItem_text d i @ '': ''
                                                  @ (case tid ! i of
                                                       QVariant_String s \<Rightarrow> ''"'' @ s @ ''"''
                                                     | _ \<Rightarrow> toString (tid ! i))
                                                  @ ''\<newline>'')
                                         [0 ..< length tid]))
                      (filter (\<lambda>tid. tid \<noteq> []) (map (treeItemData d) (visibleItems d)))))\<close>
proof -
  have value_text:
    \<open>quoted_entry var = (case var of QVariant_String s \<Rightarrow> ''"'' @ s @ ''"'' | _ \<Rightarrow> toString var)\<close>
    for var
    by (rule quoted_entry_closed)
  from yaml_output [OF assms] show ?thesis
    by (simp only: value_text)
qed

theorem yaml_format_witness:
  \<open>escapes (pieces (windowSubtitle demo_dialog)) = []
   \<and> getTreeAsString demo_dialog ST_FORMAT_YAML =
       Inr (''---\<newline>''
            @ ''Description: "Demo"\<newline>''
            @ ''File: "cap.pcap"\<newline>''
            @ ''Items:\<newline>''
            @ ''  - Name: "alice"\<newline>''
            @ ''    Count: 3\<newline>''
            @ ''  - Name: "bob"\<newline>''
            @ ''    Count: 15\<newline>'')\<close>
proof -
  have e: "escapes (pieces (windowSubtitle demo_dialog)) = []"
    by (simp add: demo_dialog_def)
  then have h: "\<forall>n \<in> set (escapes (pieces (windowSubtitle demo_dialog))). 2 < n"
    by simp
  have n: "number_int 3 = ''3''" "number_nat 15 = ''15''" by code_simp+
  have u: "[0 ..< 2] = [0, 1]" by (simp add: upt_rec)
  show ?thesis
    using yaml_format [OF h] e
    by (simp add: demo_dialog_def headerItem_text_def columnCount_def n u)
qed

text \<open>The lines of the items start two columns further to the right than in the shape the
  specification gives.\<close>

theorem yaml_layout_counterexample:
  \<open>getTreeAsString demo_dialog ST_FORMAT_YAML =
       Inr (''---\<newline>''
            @ ''Description: "Demo"\<newline>''
            @ ''File: "cap.pcap"\<newline>''
            @ ''Items:\<newline>''
            @ ''  - Name: "alice"\<newline>''
            @ ''    Count: 3\<newline>''
            @ ''  - Name: "bob"\<newline>''
            @ ''    Count: 15\<newline>'')
   \<and> spec_yaml demo_dialog =
       ''---\<newline>''
       @ ''Description: "Demo"\<newline>''
       @ ''File: "cap.pcap"\<newline>''
       @ ''Items:\<newline>''
       @ ''- Name: "alice"\<newline>''
       @ ''  Count: 3\<newline>''
       @ ''- Name: "bob"\<newline>''
       @ ''  Count: 15\<newline>''
   \<and> getTreeAsString demo_dialog ST_FORMAT_YAML \<noteq> Inr (spec_yaml demo_dialog)\<close>
  by code_simp

text \<open>
  A window subtitle with a place marker of a low number is not covered by the property
  above: the second \<^verbatim>\<open>arg\<close> of the YAML header replaces the marker inside the subtitle and
  leaves \<^verbatim>\<open>%2\<close> in the \<^verbatim>\<open>File\<close> line.
\<close>

lemma yaml_header_chained_arg:
  \<open>getTreeAsString (demo_dialog\<lparr>windowSubtitle := ''%1f'', visibleItems := []\<rparr>) ST_FORMAT_YAML =
       Inr (''---\<newline>''
            @ ''Description: "cap.pcapf"\<newline>''
            @ ''File: "%2"\<newline>''
            @ ''Items:\<newline>'')\<close>
  by code_simp

text \<open>
  C6. An item without cells leaves no trace in any of the four formats: the export of a
  dialog equals the export of the same dialog with its items without cells removed, and so
  does the result of the width pass of the plain format.
\<close>

theorem zero_cell_items_skipped:
  "getTreeAsString
     (d\<lparr>visibleItems := filter (\<lambda>item. treeItemData d item \<noteq> []) (visibleItems d)\<rparr>) format
   = getTreeAsString d format
   \<and> width_items d (filter (\<lambda>item. treeItemData d item \<noteq> []) (visibleItems d)) []
     = width_items d (visibleItems d) []"
proof
  show "getTreeAsString
     (d\<lparr>visibleItems := filter (\<lambda>item. treeItemData d item \<noteq> []) (visibleItems d)\<rparr>) format
   = getTreeAsString d format"
    by (rule getTreeAsString_filter)
  show "width_items d (filter (\<lambda>item. treeItemData d item \<noteq> []) (visibleItems d)) []
     = width_items d (visibleItems d) []"
    by (rule width_items_filter)
qed

text \<open>
  C7. After any sequence of registrations, starting with no dialog registered, the registry
  holds every key once. Registering a creator for a key that has one replaces it: a
  later \<open>showTapParameterStatistics\<close> for the key returns what the creator registered
  last returns, whatever the earlier creators are; in general it calls the creator of the
  last registration of the key in the sequence. Registrations of two different keys give
  the same lookups in either order.
\<close>

theorem registry_last_write_wins:
  "distinct (map fst (cfg_str_to_creator (register_all no_dialogs ds)))
   \<and> showTapParameterStatistics
       (registerDialog t2 k g2 cb2 c2 (registerDialog t1 k g1 cb1 c1 r)) parent cf k a
     = c2 parent k a cf
   \<and> showTapParameterStatistics (register_all r ds) parent cf k a
     = (case find (\<lambda>x. reg_cfg_abbr x = k) (rev ds) of
          Some x \<Rightarrow> reg_creator x parent k a cf
        | None \<Rightarrow> showTapParameterStatistics r parent cf k a)
   \<and> (k1 \<noteq> k2 \<longrightarrow>
        map_of (cfg_str_to_creator
                  (registerDialog t2 k2 g2 cb2 c2 (registerDialog t1 k1 g1 cb1 c1 r)))
        = map_of (cfg_str_to_creator
                    (registerDialog t1 k1 g1 cb1 c1 (registerDialog t2 k2 g2 cb2 c2 r))))"
proof -
  have a: "distinct (map fst (cfg_str_to_creator (register_all no_dialogs ds)))"
    by (rule distinct_register_all) (simp add: no_dialogs_def)
  have b: "showTapParameterStatistics
       (registerDialog t2 k g2 cb2 c2 (registerDialog t1 k g1 cb1 c1 r)) parent cf k a
     = c2 parent k a cf"
    by (simp add: showTap_map_of creators_registerDialog update_conv')
  have c: "showTapParameterStatistics (register_all r ds) parent cf k a
     = (case find (\<lambda>x. reg_cfg_abbr x = k) (rev ds) of
          Some x \<Rightarrow> reg_creator x parent k a cf
        | None \<Rightarrow> showTapParameterStatistics r parent cf k a)"
    by (simp add: showTap_map_of map_of_register_all split: option.splits)
  have d: "k1 \<noteq> k2 \<longrightarrow>
        map_of (cfg_str_to_creator
                  (registerDialog t2 k2 g2 cb2 c2 (registerDialog t1 k1 g1 cb1 c1 r)))
        = map_of (cfg_str_to_creator
                    (registerDialog t1 k1 g1 cb1 c1 (registerDialog t2 k2 g2 cb2 c2 r)))"
    by (auto simp add: creators_registerDialog update_conv')
  from a b c d show ?thesis by blast
qed

theorem registry_last_write_wins_witness:
  "''io,stat'' \<noteq> ''conv,tcp''
   \<and> map_of (cfg_str_to_creator
               (registerDialog ''Conversations'' ''conv,tcp'' () () fixed_creator one_dialog))
     = map_of (cfg_str_to_creator
                 (registerDialog ''I/O Graph'' ''io,stat'' () () echo_creator
                    (registerDialog ''Conversations'' ''conv,tcp'' () () fixed_creator no_dialogs)))"
proof -
  have h: "''io,stat'' \<noteq> ''conv,tcp''" by simp
  note w = registry_last_write_wins [where ?k1.0 = "''io,stat''" and ?k2.0 = "''conv,tcp''"
      and ?t1.0 = "''I/O Graph''" and ?t2.0 = "''Conversations''"
      and ?g1.0 = "()" and ?g2.0 = "()" and ?cb1.0 = "()" and ?cb2.0 = "()"
      and ?c1.0 = echo_creator and ?c2.0 = fixed_creator and r = no_dialogs]
  from w h show ?thesis
    by (simp add: one_dialog_def)
qed

text \<open>
  C8. \<open>showTapParameterStatistics\<close> for a key the registry does not contain returns the
  null pointer, and it has no other way to end; for a key the registry holds with a
  creator it returns what the creator returns when called with the parent widget, the key,
  the argument and the capture file. The registry contains a key exactly when it holds a
  creator for it.
\<close>

theorem create_from_registry:
  "(\<not> contains (cfg_str_to_creator r) cfg_str
      \<longrightarrow> showTapParameterStatistics r parent cf cfg_str a = None)
   \<and> (map_of (cfg_str_to_creator r) cfg_str = Some creator
      \<longrightarrow> contains (cfg_str_to_creator r) cfg_str
          \<and> showTapParameterStatistics r parent cf cfg_str a = creator parent cfg_str a cf)"
proof -
  have absent: "\<not> contains (cfg_str_to_creator r) cfg_str
      \<longrightarrow> showTapParameterStatistics r parent cf cfg_str a = None"
    by (simp add: showTapParameterStatistics_def)
  have present: "contains (cfg_str_to_creator r) cfg_str
          \<and> showTapParameterStatistics r parent cf cfg_str a = creator parent cfg_str a cf"
    if h: "map_of (cfg_str_to_creator r) cfg_str = Some creator"
  proof -
    from h have "cfg_str \<in> fst ` set (cfg_str_to_creator r)"
      by (metis map_of_eq_None_iff option.distinct(1))
    then have "contains (cfg_str_to_creator r) cfg_str" by (simp add: contains_def)
    with h show ?thesis by (simp add: showTap_map_of)
  qed
  from absent present show ?thesis by blast
qed

theorem create_from_registry_witness:
  "\<not> contains (cfg_str_to_creator one_dialog) ''conv,tcp''
   \<and> showTapParameterStatistics one_dialog () () ''conv,tcp'' ''udp'' = None
   \<and> map_of (cfg_str_to_creator one_dialog) ''io,stat'' = Some echo_creator
   \<and> showTapParameterStatistics one_dialog () () ''io,stat'' ''udp'' = Some (''io,stat'', ''udp'')"
proof -
  have n: "\<not> contains (cfg_str_to_creator one_dialog) ''conv,tcp''"
    by (simp add: one_dialog_def registerDialog_def no_dialogs_def contains_def Let_def)
  have s: "map_of (cfg_str_to_creator one_dialog) ''io,stat'' = Some echo_creator"
    by (simp add: one_dialog_def registerDialog_def no_dialogs_def Let_def)
  from create_from_registry [of one_dialog "''conv,tcp''" "()" "()" "''udp''"] n
  have 1: "showTapParameterStatistics one_dialog () () ''conv,tcp'' ''udp'' = None"
    by blast
  from create_from_registry [of one_dialog "''io,stat''" "()" "()" "''udp''" echo_creator] s
  have "showTapParameterStatistics one_dialog () () ''io,stat'' ''udp'' = echo_creator () ''io,stat'' ''udp'' ()"
    by blast
  then have 2: "showTapParameterStatistics one_dialog () () ''io,stat'' ''udp'' = Some (''io,stat'', ''udp'')"
    by (simp add: echo_creator_def)
  from n s 1 2 show ?thesis by blast
qed

end
